theory Spec2Isabelle
  imports Complex_Main "HOL-Library.Sublist"
begin

section \<open>The study planner: data model\<close>

text \<open>
  A shallow embedding of \<^verbatim>\<open>app/controllers/study_planner_controller.py\<close> and of the
  models in \<^verbatim>\<open>app/models/study_plan.py\<close>.

  Conventions of the embedding.
  \<^item> A \<^verbatim>\<open>datetime.date\<close> is its proleptic Gregorian ordinal (\<^verbatim>\<open>date.toordinal()\<close>), an
    \<open>int\<close> between 1 (0001-01-01) and 3652059 (9999-12-31). \<^verbatim>\<open>d + timedelta(days=n)\<close> is
    \<open>date_add d n\<close>, which raises OverflowError when the sum leaves that range.
  \<^item> Hours are exact rationals. Python computes on IEEE doubles; rounding of the
    floating-point operations is not modelled, so \<^verbatim>\<open>0.01\<close>, \<^verbatim>\<open>0.1\<close> and \<^verbatim>\<open>0.5\<close> are
    \<open>1/100\<close>, \<open>1/10\<close> and \<open>1/2\<close>.
  \<^item> A \<^verbatim>\<open>datetime.time\<close> is the number of hours since midnight, in \<open>[0, 24)\<close>, and a
    \<^verbatim>\<open>datetime\<close> is the number of hours since 0001-01-01 00:00.
    \<^verbatim>\<open>datetime.combine(datetime.today(), t)\<close> is \<open>datetime_combine today t\<close>, where the date
    \<open>today\<close> of the call is a parameter of the model; \<^verbatim>\<open>dt + timedelta(hours=h)\<close> is
    \<open>datetime_add dt h\<close>, which raises OverflowError when the sum leaves the range of
    \<^verbatim>\<open>datetime\<close>; \<^verbatim>\<open>dt.time()\<close> is \<open>wrap24 dt\<close>. The rounding of a \<^verbatim>\<open>timedelta\<close> to
    microseconds is not modelled.
  \<^item> The dictionaries built in \<^verbatim>\<open>_generate_rule_based_schedule\<close> are records with the
    dictionaries' keys as fields; the mutation of a dictionary is the update of the
    record, returned by the function that mutates it.
  \<^item> Every operation of the source that can raise on well-typed input within this number
    model is a branch of the model: the date and datetime arithmetic (OverflowError), the
    division of \<^verbatim>\<open>_add_revision_session\<close> (ZeroDivisionError) and the subtraction
    \<^verbatim>\<open>subject["exam_date"] - timedelta(...)\<close> on a missing exam date (TypeError).
\<close>

type_synonym date = int

datatype importance = High | Medium | Low

datatype py_error = ZeroDivisionError | TypeError | OverflowError

record Topic =
  topic_name :: string
  estimated_hours :: rat
  topic_difficulty :: "int option"
  topic_completed :: "bool option"

record Subject =
  subject_id :: "int option"
  subject_name :: string
  subject_topics :: "Topic list"
  subject_exam_date :: "date option"
  subject_importance :: importance
  subject_difficulty :: "int option"

record StudySession =
  ss_subject :: string
  ss_topic :: string
  ss_date :: date
  start_time :: rat
  end_time :: rat
  duration_hours :: rat
  session_type :: string

record StudyDay =
  day_date :: date
  sessions :: "StudySession list"

text \<open>
  \<^verbatim>\<open>StudyPreferences\<close>: the fields \<^verbatim>\<open>time_blocks\<close>, \<^verbatim>\<open>study_style\<close>, \<^verbatim>\<open>session_length\<close> and
  \<^verbatim>\<open>weekly_revision\<close> are never read by the controller and are left out.
\<close>

record StudyPreferences =
  weekday_hours :: rat
  weekend_hours :: rat
  break_duration :: rat
  session_duration :: rat
  revision_days_before :: int
  break_days :: "date list option"

record StudyPlanRequest =
  subjects :: "Subject list"
  start_date :: date
  end_date :: date
  preferences :: StudyPreferences

record unallocated_topic =
  un_subject :: string
  un_topic :: string
  hours_remaining :: rat

record StudyPlanResponse =
  days :: "StudyDay list"
  total_study_hours :: rat
  subjects_distribution :: "(string \<times> rat) list"
  insufficient_time :: bool
  total_hours_needed :: rat
  available_hours :: rat
  unallocated_topics :: "unallocated_topic list"

text \<open>The dictionaries of \<^verbatim>\<open>subject_data\<close> (lines 112-133).\<close>

record topic_data =
  t_name :: string
  hours_needed :: rat
  remaining_hours :: rat
  difficulty :: "int option"
  completed :: bool

record subject_data =
  s_name :: string
  exam_date :: "date option"
  importance :: importance
  topics :: "topic_data list"
  current_topic_index :: nat
  needs_revision :: bool
  revision_completed :: bool
  subject_completed :: bool

section \<open>Dates, clock and rounding\<close>

definition max_ordinal :: int where
  \<comment> \<open>\<^verbatim>\<open>date.max.toordinal()\<close>, the ordinal of 9999-12-31\<close>
  "max_ordinal = 3652059"

definition date_add :: "date \<Rightarrow> int \<Rightarrow> py_error + date" where
  \<comment> \<open>\<^verbatim>\<open>d + timedelta(days=n)\<close>: the \<^verbatim>\<open>timedelta\<close> holds at most 999999999 days, and the
      result is a date\<close>
  "date_add d n =
     (if \<bar>n\<bar> > 999999999 then Inl OverflowError
      else if 1 \<le> d + n \<and> d + n \<le> max_ordinal then Inr (d + n)
      else Inl OverflowError)"

definition datetime_combine :: "date \<Rightarrow> rat \<Rightarrow> rat" where
  \<comment> \<open>\<^verbatim>\<open>datetime.combine(datetime.today(), t)\<close>\<close>
  "datetime_combine today t = of_int (today - 1) * 24 + t"

definition datetime_add :: "rat \<Rightarrow> rat \<Rightarrow> py_error + rat" where
  \<comment> \<open>\<^verbatim>\<open>dt + timedelta(hours=h)\<close>: the \<^verbatim>\<open>timedelta\<close> holds between -999999999 and
      999999999 days, and the result lies between \<^verbatim>\<open>datetime.min\<close> and \<^verbatim>\<open>datetime.max\<close>\<close>
  "datetime_add dt h =
     (if h < - 999999999 * 24 \<or> 1000000000 * 24 \<le> h then Inl OverflowError
      else if 0 \<le> dt + h \<and> dt + h < of_int max_ordinal * 24 then Inr (dt + h)
      else Inl OverflowError)"

definition weekday :: "date \<Rightarrow> int" where
  \<comment> \<open>\<^verbatim>\<open>date.weekday()\<close>: Monday is 0; ordinal 1 (0001-01-01) is a Monday.\<close>
  "weekday d = (d + 6) mod 7"

definition is_weekend :: "date \<Rightarrow> bool" where
  "is_weekend d = (weekday d \<ge> 5)"

definition is_break_day :: "StudyPreferences \<Rightarrow> date \<Rightarrow> bool" where
  \<comment> \<open>\<^verbatim>\<open>preferences.break_days and current_date in preferences.break_days\<close>\<close>
  "is_break_day p d = (case break_days p of None \<Rightarrow> False | Some bs \<Rightarrow> bs \<noteq> [] \<and> d \<in> set bs)"

definition day_budget :: "StudyPreferences \<Rightarrow> date \<Rightarrow> rat" where
  "day_budget p d = (if is_weekend d then weekend_hours p else weekday_hours p)"

definition wrap24 :: "rat \<Rightarrow> rat" where
  \<comment> \<open>\<^verbatim>\<open>dt.time()\<close>: the time of day of a datetime\<close>
  "wrap24 x = x - 24 * of_int \<lfloor>x / 24\<rfloor>"

definition round1 :: "rat \<Rightarrow> rat" where
  \<comment> \<open>\<^verbatim>\<open>round(x, 1)\<close>: to one decimal, ties to even.\<close>
  "round1 x =
     (let y = 10 * x; f = \<lfloor>y\<rfloor>; r = y - of_int f
      in of_int (if r < 1/2 then f else if 1/2 < r then f + 1
                 else if even f then f else f + 1) / 10)"

definition min3 :: "rat \<Rightarrow> rat \<Rightarrow> rat \<Rightarrow> rat" where
  \<comment> \<open>\<^verbatim>\<open>min(a, b, c)\<close>\<close>
  "min3 a b c = min a (min b c)"

definition py_div :: "rat \<Rightarrow> nat \<Rightarrow> py_error + rat" where
  "py_div a n = (if n = 0 then Inl ZeroDivisionError else Inr (a / of_nat n))"

section \<open>Demand and availability (\<^verbatim>\<open>generate_study_plan\<close>, lines 28-63)\<close>

definition subject_hours :: "Subject \<Rightarrow> rat" where
  "subject_hours s =
     (let h = sum_list (map estimated_hours (subject_topics s))
      in if subject_exam_date s \<noteq> None then h + h * (1/2) else h)"

fun total_needed :: "Subject list \<Rightarrow> rat \<Rightarrow> rat" where
  "total_needed [] acc = acc"
| "total_needed (s # ss) acc = total_needed ss (acc + subject_hours s)"

function available_loop :: "StudyPreferences \<Rightarrow> date \<Rightarrow> date \<Rightarrow> rat \<Rightarrow> py_error + rat" where
  "available_loop p e cur acc =
     (if cur \<le> e then
        (if is_break_day p cur then
           (case date_add cur 1 of
              Inl err \<Rightarrow> Inl err
            | Inr nxt \<Rightarrow> available_loop p e nxt acc)
         else
           (case date_add cur 1 of
              Inl err \<Rightarrow> Inl err
            | Inr nxt \<Rightarrow>
                available_loop p e nxt
                  (acc + (if is_weekend cur then weekend_hours p else weekday_hours p))))
      else Inr acc)"
  by pat_completeness auto
termination
  by (relation "measure (\<lambda>(p, e, cur, acc). nat (e + 1 - cur))")
     (auto simp: date_add_def split: if_splits)

section \<open>The regular allocator (\<^verbatim>\<open>_add_regular_session\<close>, lines 337-402)\<close>

type_synonym alloc_result = "subject_data \<times> StudySession list \<times> rat \<times> rat"

function regular_loop ::
  "date \<Rightarrow> subject_data \<Rightarrow> date \<Rightarrow> rat \<Rightarrow> rat \<Rightarrow> rat \<Rightarrow> rat \<Rightarrow> StudySession list
     \<Rightarrow> py_error + alloc_result" where
  "regular_loop today s d ct avail maxd brk ds =
     (if current_topic_index s < length (topics s) then
        (let i = current_topic_index s; t = topics s ! i in
         if remaining_hours t \<le> 1/100 \<or> completed t then
           regular_loop today (s\<lparr>current_topic_index := i + 1\<rparr>) d ct avail maxd brk ds
         else
           (let dur = min3 maxd avail (remaining_hours t) in
            case datetime_add (datetime_combine today ct) dur of
              Inl err \<Rightarrow> Inl err
            | Inr end_time_dt \<Rightarrow>
               (let session = \<lparr>ss_subject = s_name s, ss_topic = t_name t, ss_date = d,
                               start_time = ct, end_time = wrap24 end_time_dt,
                               duration_hours = dur, session_type = ''regular''\<rparr>;
                    t1 = t\<lparr>remaining_hours := remaining_hours t - dur\<rparr>;
                    fin = (remaining_hours t1 \<le> 1/100);
                    t2 = (if fin then t1\<lparr>completed := True\<rparr> else t1);
                    s' = s\<lparr>topics := (topics s)[i := t2],
                           current_topic_index := (if fin then i + 1 else i)\<rparr>
                in if avail - dur > 1/100 then
                     (case datetime_add end_time_dt brk of
                        Inl err \<Rightarrow> Inl err
                      | Inr break_end_dt \<Rightarrow>
                          Inr (s', ds @ [session], dur + brk, wrap24 break_end_dt))
                   else Inr (s', ds @ [session], dur, wrap24 end_time_dt))))
      else Inr (s\<lparr>subject_completed := True\<rparr>, ds, 0, ct))"
  by pat_completeness auto
termination
  by (relation "measure (\<lambda>(today, s, d, ct, avail, maxd, brk, ds).
                   length (topics s) - current_topic_index s)") auto

definition add_regular_session ::
  "date \<Rightarrow> subject_data \<Rightarrow> date \<Rightarrow> rat \<Rightarrow> rat \<Rightarrow> rat \<Rightarrow> rat \<Rightarrow> StudySession list
     \<Rightarrow> py_error + alloc_result" where
  "add_regular_session today s d ct avail maxd brk ds =
     (if subject_completed s then Inr (s, ds, 0, ct)
      else regular_loop today s d ct avail maxd brk ds)"

section \<open>The revision allocator (\<^verbatim>\<open>_add_revision_session\<close>, lines 404-485)\<close>

text \<open>
  The loop of lines 435-479. Its state is \<open>(topics_revised, remaining_time, hours_used,
  current_session_time, day_sessions)\<close>; \<open>topic_index\<close> grows by one in every iteration,
  so the loop is a recursion over the topics from \<open>topic_index\<close> on.
\<close>

type_synonym rev_state = "nat \<times> rat \<times> rat \<times> rat \<times> StudySession list"

function (sequential) revision_loop ::
  "date \<Rightarrow> string \<Rightarrow> date \<Rightarrow> rat \<Rightarrow> rat \<Rightarrow> nat \<Rightarrow> rat \<Rightarrow> topic_data list \<Rightarrow> rev_state
     \<Rightarrow> py_error + rev_state" where
  "revision_loop today nm d maxd brk quota tpt [] st = Inr st"
| "revision_loop today nm d maxd brk quota tpt (t # ts) (revised, remaining, used, cst, ds) =
     (if revised < quota \<and> remaining > 1/10 then
        (let dur = min3 maxd remaining tpt in
         if dur < 1/10 then
           revision_loop today nm d maxd brk quota tpt ts (revised, remaining, used, cst, ds)
         else
           (case datetime_add (datetime_combine today cst) dur of
              Inl err \<Rightarrow> Inl err
            | Inr end_time_dt \<Rightarrow>
               (let session = \<lparr>ss_subject = nm, ss_topic = ''Revision: '' @ t_name t,
                               ss_date = d, start_time = cst, end_time = wrap24 end_time_dt,
                               duration_hours = dur, session_type = ''revision''\<rparr>;
                    used1 = used + dur;
                    remaining1 = remaining - dur
                in if remaining1 > 1/10 then
                     (case datetime_add end_time_dt brk of
                        Inl err \<Rightarrow> Inl err
                      | Inr break_end_dt \<Rightarrow>
                          revision_loop today nm d maxd brk quota tpt ts
                            (revised + 1, remaining1 - brk, used1 + brk, wrap24 break_end_dt,
                             ds @ [session]))
                   else revision_loop today nm d maxd brk quota tpt ts
                          (revised + 1, remaining1, used1, wrap24 end_time_dt,
                           ds @ [session]))))
      else Inr (revised, remaining, used, cst, ds))"
  by pat_completeness auto
termination
  by (relation "measure (\<lambda>(today, nm, d, maxd, brk, quota, tpt, ts, st). length ts)") auto

definition total_topics :: "subject_data \<Rightarrow> nat" where
  "total_topics s = length (filter (\<lambda>t. \<not> completed t) (topics s))"

definition add_revision_session ::
  "date \<Rightarrow> subject_data \<Rightarrow> date \<Rightarrow> rat \<Rightarrow> rat \<Rightarrow> rat \<Rightarrow> rat \<Rightarrow> StudySession list
     \<Rightarrow> py_error + alloc_result" where
  "add_revision_session today s d ct avail maxd brk ds =
     (if revision_completed s \<or> subject_completed s then Inr (s, ds, 0, ct)
      else
        (let topics_to_revise = min (total_topics s) 5 in
         if topics_to_revise = 0 then Inr (s, ds, 0, ct)
         else
           (case py_div avail topics_to_revise of
              Inl err \<Rightarrow> Inl err
            | Inr q \<Rightarrow>
               (case revision_loop today (s_name s) d maxd brk topics_to_revise (min (1/2) q)
                       (topics s) (0, avail, 0, ct, ds) of
                  Inl err \<Rightarrow> Inl err
                | Inr (revised, remaining, used, cst, ds') \<Rightarrow>
                    Inr (if revised \<ge> min 3 (total_topics s)
                         then s\<lparr>revision_completed := True\<rparr> else s,
                         ds', used, cst)))))"

section \<open>The day loop (\<^verbatim>\<open>_generate_rule_based_schedule\<close>, lines 94-335)\<close>

definition init_topic :: "Topic \<Rightarrow> topic_data" where
  "init_topic t = \<lparr>t_name = topic_name t, hours_needed = estimated_hours t,
                   remaining_hours = estimated_hours t, difficulty = topic_difficulty t,
                   completed = False\<rparr>"

definition init_subject :: "Subject \<Rightarrow> subject_data" where
  "init_subject s = \<lparr>s_name = subject_name s, exam_date = subject_exam_date s,
                     importance = subject_importance s,
                     topics = map init_topic (subject_topics s),
                     current_topic_index = 0,
                     needs_revision = (subject_exam_date s \<noteq> None),
                     revision_completed = False, subject_completed = False\<rparr>"

text \<open>
  The state of one day: the subject dictionaries, \<^verbatim>\<open>hours_left\<close>, \<^verbatim>\<open>current_time\<close>,
  \<^verbatim>\<open>day_sessions\<close>, and the entry of \<^verbatim>\<open>high_importance_coverage\<close> for the current date
  (the only entry the day reads or writes).
\<close>

record day_state =
  sdata :: "subject_data list"
  hours_left :: rat
  current_time :: rat
  day_sessions :: "StudySession list"
  covered :: "string set"

definition needs_revision_today ::
  "StudyPreferences \<Rightarrow> date \<Rightarrow> subject_data \<Rightarrow> date \<Rightarrow> py_error + bool" where
  \<comment> \<open>lines 177-178, 216-217, 251-252, 283-284: \<open>e\<close> is the exam date of \<open>s\<close>\<close>
  "needs_revision_today p d s e =
     (case date_add e (- revision_days_before p) of
        Inl err \<Rightarrow> Inl err
      | Inr revision_day \<Rightarrow> Inr (d = revision_day \<and> \<not> revision_completed s))"

definition revise_step ::
  "date \<Rightarrow> StudyPreferences \<Rightarrow> date \<Rightarrow> rat \<Rightarrow> nat \<Rightarrow> day_state \<Rightarrow> py_error + day_state" where
  \<comment> \<open>lines 182-187, 221-226, 256-261, 288-293\<close>
  "revise_step today p d target i st =
     (case add_revision_session today (sdata st ! i) d (current_time st) target
             (session_duration p) (break_duration p) (day_sessions st) of
        Inl err \<Rightarrow> Inl err
      | Inr (s', ds', used, ct') \<Rightarrow>
          Inr (st\<lparr>sdata := (sdata st)[i := s'\<lparr>revision_completed := True\<rparr>],
                  hours_left := hours_left st - used,
                  current_time := ct', day_sessions := ds'\<rparr>))"

definition study_step ::
  "date \<Rightarrow> StudyPreferences \<Rightarrow> date \<Rightarrow> rat \<Rightarrow> nat \<Rightarrow> day_state \<Rightarrow> py_error + day_state" where
  \<comment> \<open>lines 190-194, 230-234, 265-269, 297-301\<close>
  "study_step today p d target i st =
     (case add_regular_session today (sdata st ! i) d (current_time st) target
             (session_duration p) (break_duration p) (day_sessions st) of
        Inl err \<Rightarrow> Inl err
      | Inr (s', ds', used, ct') \<Rightarrow>
          Inr (st\<lparr>sdata := (sdata st)[i := s'], hours_left := hours_left st - used,
                  current_time := ct', day_sessions := ds'\<rparr>))"

definition mark_covered :: "nat \<Rightarrow> day_state \<Rightarrow> day_state" where
  "mark_covered i st = st\<lparr>covered := insert (s_name (sdata st ! i)) (covered st)\<rparr>"

definition urgent_step ::
  "date \<Rightarrow> StudyPreferences \<Rightarrow> date \<Rightarrow> nat \<Rightarrow> day_state \<Rightarrow> py_error + day_state" where
  \<comment> \<open>lines 173-198\<close>
  "urgent_step today p d i st =
     (let s = sdata st ! i; target = min 2 (hours_left st) in
      case exam_date s of
        None \<Rightarrow> Inl TypeError
      | Some e \<Rightarrow>
         (case needs_revision_today p d s e of
            Inl err \<Rightarrow> Inl err
          | Inr due \<Rightarrow>
             (case (if due then revise_step today p d target i st
                    else study_step today p d target i st) of
                Inl err \<Rightarrow> Inl err
              | Inr st' \<Rightarrow>
                  Inr (if importance (sdata st' ! i) = High then mark_covered i st'
                       else st'))))"

definition revision_due ::
  "StudyPreferences \<Rightarrow> date \<Rightarrow> subject_data \<Rightarrow> py_error + bool" where
  \<comment> \<open>lines 215-219, 250-254, 282-286: the check made only for a subject with an exam date\<close>
  "revision_due p d s =
     (case exam_date s of None \<Rightarrow> Inr False | Some e \<Rightarrow> needs_revision_today p d s e)"

definition high_step ::
  "date \<Rightarrow> StudyPreferences \<Rightarrow> date \<Rightarrow> nat \<Rightarrow> day_state \<Rightarrow> py_error + day_state" where
  \<comment> \<open>lines 211-237\<close>
  "high_step today p d i st =
     (let s = sdata st ! i; target = min 1 (hours_left st) in
      case revision_due p d s of
        Inl err \<Rightarrow> Inl err
      | Inr due \<Rightarrow>
         (if due then revise_step today p d target i st
          else (case study_step today p d target i st of
                  Inl err \<Rightarrow> Inl err
                | Inr st' \<Rightarrow> Inr (mark_covered i st'))))"

definition rest_step ::
  "date \<Rightarrow> StudyPreferences \<Rightarrow> date \<Rightarrow> nat \<Rightarrow> day_state \<Rightarrow> py_error + day_state" where
  \<comment> \<open>lines 249-269 (Medium) and 281-301 (Low)\<close>
  "rest_step today p d i st =
     (let s = sdata st ! i; target = hours_left st in
      case revision_due p d s of
        Inl err \<Rightarrow> Inl err
      | Inr due \<Rightarrow>
         (if due then revise_step today p d target i st
          else study_step today p d target i st))"

text \<open>
  One pass: the subjects selected by the list comprehension are visited in order, by
  their position in \<^verbatim>\<open>subject_data\<close> (the comprehension holds references to the
  dictionaries), and the pass stops once \<open>hours_left < 0.5\<close>.
\<close>

fun run_pass ::
  "(nat \<Rightarrow> day_state \<Rightarrow> py_error + day_state) \<Rightarrow> nat list \<Rightarrow> day_state \<Rightarrow> py_error + day_state" where
  "run_pass step [] st = Inr st"
| "run_pass step (i # is) st =
     (if hours_left st < 1/2 then Inr st
      else (case step i st of Inl err \<Rightarrow> Inl err | Inr st' \<Rightarrow> run_pass step is st'))"

definition select :: "(subject_data \<Rightarrow> bool) \<Rightarrow> subject_data list \<Rightarrow> nat list" where
  "select P sd = filter (\<lambda>i. P (sd ! i)) [0..<length sd]"

definition is_urgent :: "date \<Rightarrow> subject_data \<Rightarrow> bool" where
  "is_urgent d s =
     (case exam_date s of None \<Rightarrow> False
      | Some e \<Rightarrow> \<not> subject_completed s \<and> e - d < 5 \<and> e \<ge> d)"

definition is_high :: "string set \<Rightarrow> subject_data \<Rightarrow> bool" where
  "is_high cov s = (importance s = High \<and> \<not> subject_completed s \<and> s_name s \<notin> cov)"

definition is_tier :: "importance \<Rightarrow> subject_data \<Rightarrow> bool" where
  "is_tier imp s = (importance s = imp \<and> \<not> subject_completed s)"

definition day_start :: "StudyPreferences \<Rightarrow> date \<Rightarrow> subject_data list \<Rightarrow> day_state" where
  \<comment> \<open>lines 147-160\<close>
  "day_start p d sd = \<lparr>sdata = sd, hours_left = day_budget p d, current_time = 9,
                        day_sessions = [], covered = {}\<rparr>"

definition day_passes ::
  "date \<Rightarrow> StudyPreferences \<Rightarrow> date \<Rightarrow> subject_data list \<Rightarrow> py_error + day_state" where
  \<comment> \<open>lines 146-301\<close>
  "day_passes today p d sd =
     (case run_pass (urgent_step today p d) (select (is_urgent d) sd) (day_start p d sd) of
        Inl err \<Rightarrow> Inl err
      | Inr st1 \<Rightarrow>
      (case run_pass (high_step today p d) (select (is_high (covered st1)) (sdata st1)) st1 of
        Inl err \<Rightarrow> Inl err
      | Inr st2 \<Rightarrow>
      (case run_pass (rest_step today p d) (select (is_tier Medium) (sdata st2)) st2 of
        Inl err \<Rightarrow> Inl err
      | Inr st3 \<Rightarrow>
         run_pass (rest_step today p d) (select (is_tier Low) (sdata st3)) st3)))"

definition all_topics_done :: "subject_data \<Rightarrow> bool" where
  "all_topics_done s = list_all (\<lambda>t. remaining_hours t \<le> 1/100 \<or> completed t) (topics s)"

definition completion_due :: "date \<Rightarrow> subject_data \<Rightarrow> bool" where
  \<comment> \<open>lines 322-323; \<open>cur\<close> is the date already advanced\<close>
  "completion_due cur s =
     ((case exam_date s of None \<Rightarrow> False | Some e \<Rightarrow> e < cur) \<or>
      (all_topics_done s \<and> (revision_completed s \<or> \<not> needs_revision s)))"

definition leftover :: "subject_data \<Rightarrow> unallocated_topic list" where
  \<comment> \<open>lines 327-333\<close>
  "leftover s =
     map (\<lambda>t. \<lparr>un_subject = s_name s, un_topic = t_name t,
               hours_remaining = round1 (remaining_hours t)\<rparr>)
       (filter (\<lambda>t. remaining_hours t > 1/100 \<and> \<not> completed t) (topics s))"

fun update_completed ::
  "date \<Rightarrow> subject_data list \<Rightarrow> unallocated_topic list
     \<Rightarrow> subject_data list \<times> unallocated_topic list" where
  \<comment> \<open>lines 311-333\<close>
  "update_completed cur [] un = ([], un)"
| "update_completed cur (s # ss) un =
     (if subject_completed s then
        (case update_completed cur ss un of (ss', un') \<Rightarrow> (s # ss', un'))
      else if completion_due cur s then
        (case update_completed cur ss (un @ leftover s) of
           (ss', un') \<Rightarrow> (s\<lparr>subject_completed := True\<rparr> # ss', un'))
      else
        (case update_completed cur ss un of (ss', un') \<Rightarrow> (s # ss', un')))"

function schedule_loop ::
  "date \<Rightarrow> StudyPreferences \<Rightarrow> date \<Rightarrow> date \<Rightarrow> subject_data list \<Rightarrow> StudyDay list
     \<Rightarrow> unallocated_topic list \<Rightarrow> py_error + (StudyDay list \<times> unallocated_topic list)" where
  "schedule_loop today p e cur sd dys un =
     (if cur \<le> e then
        (if is_break_day p cur then
           (case date_add cur 1 of
              Inl err \<Rightarrow> Inl err
            | Inr nxt \<Rightarrow> schedule_loop today p e nxt sd dys un)
         else
           (case day_passes today p cur sd of
              Inl err \<Rightarrow> Inl err
            | Inr st \<Rightarrow>
               (case date_add cur 1 of
                  Inl err \<Rightarrow> Inl err
                | Inr nxt \<Rightarrow>
                    schedule_loop today p e nxt
                      (fst (update_completed nxt (sdata st) un))
                      (if day_sessions st \<noteq> []
                       then dys @ [\<lparr>day_date = cur, sessions = day_sessions st\<rparr>] else dys)
                      (snd (update_completed nxt (sdata st) un)))))
      else Inr (dys, un))"
  by pat_completeness auto
termination
  by (relation "measure (\<lambda>(today, p, e, cur, sd, dys, un). nat (e + 1 - cur))")
     (auto simp: date_add_def split: if_splits)

definition generate_rule_based_schedule ::
  "date \<Rightarrow> Subject list \<Rightarrow> date \<Rightarrow> date \<Rightarrow> StudyPreferences
     \<Rightarrow> py_error + (StudyDay list \<times> unallocated_topic list)" where
  "generate_rule_based_schedule today subs sdate edate p =
     schedule_loop today p edate sdate (map init_subject subs) [] []"

section \<open>The response (\<^verbatim>\<open>generate_study_plan\<close>, lines 65-92)\<close>

definition all_sessions :: "StudyDay list \<Rightarrow> StudySession list" where
  "all_sessions dys = concat (map sessions dys)"

fun add_hours :: "(string \<times> rat) list \<Rightarrow> string \<Rightarrow> rat \<Rightarrow> (string \<times> rat) list" where
  "add_hours [] k h = [(k, 0 + h)]"
| "add_hours ((k', v) # kvs) k h =
     (if k' = k then (k', v + h) # kvs else (k', v) # add_hours kvs k h)"

definition distribution :: "StudySession list \<Rightarrow> (string \<times> rat) list" where
  "distribution ss = foldl (\<lambda>m x. add_hours m (ss_subject x) (duration_hours x)) [] ss"

text \<open>
  \<open>generate_study_plan today req\<close> is the call of \<^verbatim>\<open>generate_study_plan\<close> on the request
  \<open>req\<close>, made on the date \<open>today\<close>.
\<close>

definition generate_study_plan :: "date \<Rightarrow> StudyPlanRequest \<Rightarrow> py_error + StudyPlanResponse" where
  "generate_study_plan today req =
     (let p = preferences req;
          needed = total_needed (subjects req) 0
      in case available_loop p (end_date req) (start_date req) 0 of
           Inl err \<Rightarrow> Inl err
         | Inr avail \<Rightarrow>
            (case generate_rule_based_schedule today (subjects req) (start_date req)
                    (end_date req) p of
               Inl err \<Rightarrow> Inl err
             | Inr (dys, un) \<Rightarrow>
                 Inr \<lparr>days = dys,
                      total_study_hours = sum_list (map duration_hours (all_sessions dys)),
                      subjects_distribution = distribution (all_sessions dys),
                      insufficient_time = (avail < needed),
                      total_hours_needed = needed,
                      available_hours = avail,
                      unallocated_topics = un\<rparr>))"

section \<open>Notions used to state the properties\<close>

text \<open>The label of a revision session: \<^verbatim>\<open>f"Revision: {topic['name']}"\<close> (line 455).\<close>

definition rev_label :: "topic_data \<Rightarrow> string" where
  "rev_label t = ''Revision: '' @ t_name t"

text \<open>
  The hours charged by a revision batch whose sessions last \<open>durs\<close>, against a budget of
  \<open>remaining\<close> hours: the sessions, and one break after each session that leaves more
  than 0.1 hours of budget (lines 466-477).
\<close>

fun charged :: "rat \<Rightarrow> rat \<Rightarrow> rat list \<Rightarrow> rat" where
  "charged remaining brk [] = 0"
| "charged remaining brk (h # hs) =
     h + (if remaining - h > 1/10 then brk + charged (remaining - h - brk) brk hs
          else charged (remaining - h) brk hs)"

text \<open>One iteration of the revision loop that emits a session.\<close>

definition revision_session :: "date \<Rightarrow> string \<Rightarrow> topic_data \<Rightarrow> date \<Rightarrow> rat \<Rightarrow> rat \<Rightarrow> StudySession" where
  "revision_session today nm t d cst dur =
     \<lparr>ss_subject = nm, ss_topic = ''Revision: '' @ t_name t, ss_date = d, start_time = cst,
      end_time = wrap24 (datetime_combine today cst + dur), duration_hours = dur,
      session_type = ''revision''\<rparr>"

text \<open>The effect of one regular session on its topic (lines 383-389) and the session
  it emits (lines 371-379).\<close>

definition study_topic :: "rat \<Rightarrow> topic_data \<Rightarrow> topic_data" where
  "study_topic dur t =
     (if remaining_hours t - dur \<le> 1/100
      then t\<lparr>remaining_hours := remaining_hours t - dur, completed := True\<rparr>
      else t\<lparr>remaining_hours := remaining_hours t - dur\<rparr>)"

definition regular_session :: "date \<Rightarrow> string \<Rightarrow> topic_data \<Rightarrow> date \<Rightarrow> rat \<Rightarrow> rat \<Rightarrow> StudySession" where
  "regular_session today nm t d ct dur =
     \<lparr>ss_subject = nm, ss_topic = t_name t, ss_date = d, start_time = ct,
      end_time = wrap24 (datetime_combine today ct + dur), duration_hours = dur,
      session_type = ''regular''\<rparr>"

definition topic_done :: "topic_data \<Rightarrow> bool" where
  "topic_done t = (remaining_hours t \<le> 1/100 \<or> completed t)"

text \<open>The break charged after a session that leaves more than \<open>margin\<close> hours of the
  budget \<open>avail\<close>.\<close>

definition break_after :: "rat \<Rightarrow> rat \<Rightarrow> rat \<Rightarrow> rat \<Rightarrow> rat" where
  "break_after margin avail dur brk = (if avail - dur > margin then brk else 0)"

definition revision_quota :: "subject_data \<Rightarrow> nat" where
  "revision_quota s = min (total_topics s) 5"

definition time_per_topic :: "subject_data \<Rightarrow> rat \<Rightarrow> rat" where
  "time_per_topic s budget = min (1/2) (budget / of_nat (revision_quota s))"

text \<open>
  A call made on a date at least two days from either end of the range of dates, with a
  session length and a break of at most half a day, stays within the range of
  \<^verbatim>\<open>datetime\<close>.
\<close>

definition clock_in_range :: "date \<Rightarrow> rat \<Rightarrow> rat \<Rightarrow> bool" where
  "clock_in_range today maxd brk =
     (2 \<le> today \<and> today \<le> max_ordinal - 2 \<and> \<bar>maxd\<bar> \<le> 12 \<and> \<bar>brk\<bar> \<le> 12)"

definition time_of_day :: "rat \<Rightarrow> bool" where
  "time_of_day t = (0 \<le> t \<and> t < 24)"

text \<open>Concrete inputs used to instantiate the theorems. Ordinal 739194 is Monday
  2024-11-04; the calls are made on 2024-10-31 (ordinal 739190). The preferences are the
  defaults of \<^verbatim>\<open>StudyPreferences\<close>.\<close>

definition default_prefs :: StudyPreferences where
  "default_prefs = \<lparr>weekday_hours = 3, weekend_hours = 5, break_duration = 1/4,
                     session_duration = 3/2, revision_days_before = 2, break_days = None\<rparr>"

definition mk_topic :: "string \<Rightarrow> rat \<Rightarrow> Topic" where
  "mk_topic nm h = \<lparr>topic_name = nm, estimated_hours = h, topic_difficulty = Some 3,
                    topic_completed = Some False\<rparr>"

definition mk_subject :: "string \<Rightarrow> Topic list \<Rightarrow> date option \<Rightarrow> importance \<Rightarrow> Subject" where
  "mk_subject nm ts e imp = \<lparr>subject_id = None, subject_name = nm, subject_topics = ts,
                            subject_exam_date = e, subject_importance = imp,
                            subject_difficulty = Some 3\<rparr>"

definition bio :: Subject where
  "bio = mk_subject ''Bio'' [mk_topic ''T1'' 1, mk_topic ''T2'' 1, mk_topic ''T3'' 1]
           (Some 739196) High"

text \<open>What neither allocator changes in a subject.\<close>

definition fixed_part :: "subject_data \<Rightarrow> string \<times> date option \<times> importance \<times> bool \<times> string list \<times> rat list" where
  "fixed_part s = (s_name s, exam_date s, importance s, needs_revision s,
                   map t_name (topics s), map hours_needed (topics s))"

text \<open>A day state over the subjects \<open>sd\<close> the day started with.\<close>

definition based :: "subject_data list \<Rightarrow> day_state \<Rightarrow> bool" where
  "based sd st = (length (sdata st) = length sd \<and>
                  map fixed_part (sdata st) = map fixed_part sd)"

text \<open>The three obligations of an invariant of the day state.\<close>

definition day_inv ::
  "date \<Rightarrow> StudyPreferences \<Rightarrow> date \<Rightarrow> subject_data list \<Rightarrow> (day_state \<Rightarrow> bool) \<Rightarrow> bool" where
  "day_inv today p d sd I =
     ((\<forall>i tgt st st'. I st \<and> based sd st \<and> i < length sd \<and> 1/2 \<le> tgt \<and> tgt \<le> hours_left st \<and>
          study_step today p d tgt i st = Inr st' \<longrightarrow> I st') \<and>
      (\<forall>i tgt st st' e. I st \<and> based sd st \<and> i < length sd \<and> 1/2 \<le> tgt \<and>
          tgt \<le> hours_left st \<and> exam_date (sdata st ! i) = Some e \<and>
          d = e - revision_days_before p \<and> \<not> revision_completed (sdata st ! i) \<and>
          revise_step today p d tgt i st = Inr st' \<longrightarrow> I st') \<and>
      (\<forall>i st. I st \<and> based sd st \<and> i < length sd \<longrightarrow> I (mark_covered i st)))"

text \<open>The exam dates from which the revision day can be computed (lines 177, 216, 251,
  283), a property of the fixed part of the subjects.\<close>

definition exam_date_ok :: "StudyPreferences \<Rightarrow> date option \<Rightarrow> bool" where
  "exam_date_ok p eo =
     (case eo of None \<Rightarrow> True
      | Some e \<Rightarrow> 1 \<le> e - revision_days_before p \<and> e - revision_days_before p \<le> max_ordinal)"

definition exam_dates_ok :: "StudyPreferences \<Rightarrow> subject_data list \<Rightarrow> bool" where
  "exam_dates_ok p sd =
     (\<bar>revision_days_before p\<bar> \<le> 999999999 \<and> list_all (exam_date_ok p) (map exam_date sd))"

definition newly_completed :: "date \<Rightarrow> subject_data \<Rightarrow> bool" where
  "newly_completed cur s = (\<not> subject_completed s \<and> completion_due cur s)"

text \<open>The obligations of an invariant of the loop over the days.\<close>

definition loop_inv ::
  "date \<Rightarrow> StudyPreferences \<Rightarrow> date \<Rightarrow>
   (date \<Rightarrow> subject_data list \<Rightarrow> StudyDay list \<Rightarrow> unallocated_topic list \<Rightarrow> bool) \<Rightarrow> bool" where
  "loop_inv today p e J =
     ((\<forall>cur sd dys un. J cur sd dys un \<and> cur \<le> e \<and> is_break_day p cur \<longrightarrow>
          J (cur + 1) sd dys un) \<and>
      (\<forall>cur sd dys un st. J cur sd dys un \<and> cur \<le> e \<and> \<not> is_break_day p cur \<and>
          day_passes today p cur sd = Inr st \<and> based sd st \<longrightarrow>
          J (cur + 1) (fst (update_completed (cur + 1) (sdata st) un))
            (if day_sessions st \<noteq> []
             then dys @ [\<lparr>day_date = cur, sessions = day_sessions st\<rparr>] else dys)
            (snd (update_completed (cur + 1) (sdata st) un))))"

text \<open>
  A request whose date and clock arithmetic stays within the range of the Python
  \<^verbatim>\<open>date\<close> and \<^verbatim>\<open>datetime\<close> types: the call is made between 0001-01-02 and 9999-12-29,
  the session and break durations are at most twelve hours in absolute value, the range
  starts at a date and ends before 9999-12-31, and the revision day of every exam date is
  a date.
\<close>

definition no_overflow :: "date \<Rightarrow> StudyPlanRequest \<Rightarrow> bool" where
  "no_overflow today req =
     (clock_in_range today (session_duration (preferences req)) (break_duration (preferences req)) \<and>
      1 \<le> start_date req \<and> end_date req < max_ordinal \<and>
      exam_dates_ok (preferences req) (map init_subject (subjects req)))"

text \<open>The hours available on the days from \<open>cur\<close> to \<open>e\<close> (lines 45-60).\<close>

definition available_between :: "StudyPreferences \<Rightarrow> date \<Rightarrow> date \<Rightarrow> rat" where
  "available_between p cur e =
     (\<Sum>d\<leftarrow>[cur..e]. if is_break_day p d then 0
                    else if is_weekend d then weekend_hours p else weekday_hours p)"

definition good_length :: "rat \<Rightarrow> StudySession \<Rightarrow> bool" where
  "good_length maxd x = (0 < duration_hours x \<and> duration_hours x \<le> maxd)"

definition math1 :: Subject where
  "math1 = mk_subject ''Math'' [mk_topic ''A'' 1] None Medium"

definition plain_request :: StudyPlanRequest where
  "plain_request = \<lparr>subjects = [math1], start_date = 739194, end_date = 739195,
     preferences = default_prefs\<rparr>"

definition zero_length_request :: StudyPlanRequest where
  "zero_length_request = \<lparr>subjects = [math1], start_date = 739194, end_date = 739194,
     preferences = default_prefs\<lparr>session_duration := 0\<rparr>\<rparr>"

definition tight_request :: StudyPlanRequest where
  "tight_request = \<lparr>subjects = [bio, math1], start_date = 739194, end_date = 739195,
     preferences = default_prefs\<lparr>break_days := Some [739195]\<rparr>\<rparr>"

definition negative_weekday_request :: StudyPlanRequest where
  "negative_weekday_request = \<lparr>subjects = [math1], start_date = 739199, end_date = 739199,
     preferences = default_prefs\<lparr>weekday_hours := -2\<rparr>\<rparr>"

definition inverted_request :: StudyPlanRequest where
  "inverted_request = \<lparr>subjects = [math1], start_date = 739195, end_date = 739194,
     preferences = default_prefs\<rparr>"

definition negative_budget_request :: StudyPlanRequest where
  "negative_budget_request = \<lparr>subjects = [math1], start_date = 739194, end_date = 739200,
     preferences = default_prefs\<lparr>weekday_hours := -2, weekend_hours := -1\<rparr>\<rparr>"

definition last_day_request :: StudyPlanRequest where
  "last_day_request = \<lparr>subjects = [math1], start_date = 3652059, end_date = 3652059,
     preferences = default_prefs\<lparr>weekday_hours := -2, weekend_hours := -1\<rparr>\<rparr>"

definition no_topics :: Subject where
  "no_topics = mk_subject ''Empty'' [] (Some 739196) High"

definition short_revision_prefs :: StudyPreferences where
  "short_revision_prefs = default_prefs\<lparr>weekday_hours := 1/2\<rparr>"

text \<open>
  The states of the loop over the days: \<open>reaches today p e c c'\<close> says that the loop,
  started in state \<open>c\<close> (current date, subject data, days, unallocated topics), comes to
  state \<open>c'\<close> at the head of an iteration.
\<close>

type_synonym loop_state = "date \<times> subject_data list \<times> StudyDay list \<times> unallocated_topic list"

inductive reaches ::
  "date \<Rightarrow> StudyPreferences \<Rightarrow> date \<Rightarrow> loop_state \<Rightarrow> loop_state \<Rightarrow> bool"
  for today :: date and p :: StudyPreferences and e :: date and c :: loop_state where
  start: "reaches today p e c c"
| skip: "reaches today p e c (cur, sd, dys, un) \<Longrightarrow> cur \<le> e \<Longrightarrow> is_break_day p cur \<Longrightarrow>
         date_add cur 1 = Inr nxt \<Longrightarrow> reaches today p e c (nxt, sd, dys, un)"
| day: "reaches today p e c (cur, sd, dys, un) \<Longrightarrow> cur \<le> e \<Longrightarrow> \<not> is_break_day p cur \<Longrightarrow>
        day_passes today p cur sd = Inr st \<Longrightarrow> date_add cur 1 = Inr nxt \<Longrightarrow>
        reaches today p e c (nxt, fst (update_completed nxt (sdata st) un),
          (if day_sessions st \<noteq> []
           then dys @ [\<lparr>day_date = cur, sessions = day_sessions st\<rparr>] else dys),
          snd (update_completed nxt (sdata st) un))"

text \<open>The bookkeeping of a subject is settled: a topic flagged completed has at most
  0.01 hours left, and so has every topic before the cursor.\<close>

definition settled :: "subject_data \<Rightarrow> bool" where
  "settled s =
     ((\<forall>t \<in> set (topics s). completed t \<longrightarrow> remaining_hours t \<le> 1/100) \<and>
      (\<forall>j < current_topic_index s. j < length (topics s)
          \<longrightarrow> remaining_hours (topics s ! j) \<le> 1/100))"

text \<open>The condition of the transition at the day advance, and the entries it records,
  in the words of the specification.\<close>

definition hours_done :: "subject_data \<Rightarrow> bool" where
  "hours_done s = list_all (\<lambda>t. remaining_hours t \<le> 1/100) (topics s)"









text \<open>
  The load of a day, read off its sessions: the durations of the sessions, and one break
  for every session that does not start at the time the session before it ends. A break
  shows in the times of day unless it lasts a whole number of days; the load read off the
  sessions is then at most the hours spent unless that whole number is negative.
\<close>

fun breaks_between :: "rat \<Rightarrow> StudySession list \<Rightarrow> rat" where
  "breaks_between brk [] = 0"
| "breaks_between brk [x] = 0"
| "breaks_between brk (x # y # xs) =
     (if start_time y = end_time x then 0 else brk) + breaks_between brk (y # xs)"

definition day_load :: "rat \<Rightarrow> StudySession list \<Rightarrow> rat" where
  "day_load brk xs = sum_list (map duration_hours xs) + breaks_between brk xs"

definition readable_break :: "rat \<Rightarrow> bool" where
  "readable_break brk = (\<not> (brk < 0 \<and> wrap24 brk = 0))"

text \<open>The break after the last session of \<open>ds\<close>, when the clock stands at \<open>ct\<close>; and the
  account of a day: a day with sessions has a load within the budget \<open>B\<close>, and the load
  and the break after the last session are within the hours spent.\<close>

definition trail :: "rat \<Rightarrow> rat \<Rightarrow> StudySession list \<Rightarrow> rat" where
  "trail brk ct ds = (if ds = [] then 0 else if ct = end_time (last ds) then 0 else brk)"

definition acct :: "rat \<Rightarrow> rat \<Rightarrow> StudySession list \<Rightarrow> rat \<Rightarrow> rat \<Rightarrow> bool" where
  "acct brk B ds ct spent =
     ((ds \<noteq> [] \<longrightarrow> day_load brk ds \<le> B) \<and> day_load brk ds + trail brk ct ds \<le> spent)"

definition busy_request :: StudyPlanRequest where
  "busy_request = \<lparr>subjects = [bio, math1], start_date = 739194, end_date = 739194,
     preferences = default_prefs\<rparr>"

definition busy_day :: "StudySession list" where
  "busy_day =
     [\<lparr>ss_subject = ''Bio'', ss_topic = ''Revision: T1'', ss_date = 739194,
       start_time = 9, end_time = 19/2, duration_hours = 1/2, session_type = ''revision''\<rparr>,
      \<lparr>ss_subject = ''Bio'', ss_topic = ''Revision: T2'', ss_date = 739194,
       start_time = 39/4, end_time = 41/4, duration_hours = 1/2, session_type = ''revision''\<rparr>,
      \<lparr>ss_subject = ''Bio'', ss_topic = ''Revision: T3'', ss_date = 739194,
       start_time = 21/2, end_time = 11, duration_hours = 1/2, session_type = ''revision''\<rparr>,
      \<lparr>ss_subject = ''Math'', ss_topic = ''A'', ss_date = 739194,
       start_time = 11, end_time = 12, duration_hours = 1, session_type = ''regular''\<rparr>]"





text \<open>The revision sessions of \<open>xs\<close> for the subject \<open>nm\<close>.\<close>

definition revs :: "string \<Rightarrow> StudySession list \<Rightarrow> StudySession list" where
  "revs nm xs = filter (\<lambda>x. session_type x = ''revision'' \<and> ss_subject x = nm) xs"

text \<open>
  The revision sessions \<open>rv\<close> of a subject with exam date \<open>eo\<close> and topics named \<open>names\<close>
  are one batch: none when there is no exam date; otherwise all on the day
  \<open>revision_days_before\<close> days before the exam, at most five, one for each of the first
  topics in order.
\<close>

definition one_batch :: "int \<Rightarrow> date option \<Rightarrow> string list \<Rightarrow> StudySession list \<Rightarrow> bool" where
  "one_batch rdb eo names rv =
     (case eo of
        None \<Rightarrow> rv = []
      | Some e \<Rightarrow>
          list_all (\<lambda>x. ss_date x = e - rdb) rv \<and> length rv \<le> 5 \<and>
          map ss_topic rv = map (\<lambda>nm. ''Revision: '' @ nm) (take (length rv) names))"

text \<open>The revision ledger of a run: the revision sessions of every subject are one batch,
  and there are none for a subject whose revision is not completed.\<close>

definition rledger :: "int \<Rightarrow> subject_data list \<Rightarrow> StudySession list \<Rightarrow> subject_data list \<Rightarrow> bool" where
  "rledger rdb sd0 xs sdl =
     (\<forall>k < length sd0.
        one_batch rdb (exam_date (sd0 ! k)) (map t_name (topics (sd0 ! k)))
          (revs (s_name (sd0 ! k)) xs) \<and>
        (\<not> revision_completed (sdl ! k) \<longrightarrow> revs (s_name (sd0 ! k)) xs = []))"

section \<open>Properties of the allocators\<close>

declare regular_loop.simps [simp del]

declare available_loop.simps [simp del]

declare schedule_loop.simps [simp del]

lemma min3_le: "min3 a b c \<le> a" "min3 a b c \<le> b" "min3 a b c \<le> c"
  by (simp_all add: min3_def)

lemma min3_pos: "0 < a \<Longrightarrow> 0 < b \<Longrightarrow> 0 < c \<Longrightarrow> 0 < min3 a b c"
  by (simp add: min3_def)

lemma min3_ge: "l \<le> a \<Longrightarrow> l \<le> b \<Longrightarrow> l \<le> c \<Longrightarrow> l \<le> min3 a b c"
  by (simp add: min3_def)

lemma datetime_add_Inr: "datetime_add dt h = Inr x \<Longrightarrow> x = dt + h"
  by (auto simp: datetime_add_def split: if_splits)

lemma date_add_Inr: "date_add d n = Inr x \<Longrightarrow> x = d + n"
  by (auto simp: date_add_def split: if_splits)

lemma datetime_add_error: "datetime_add dt h = Inl err \<Longrightarrow> err = OverflowError"
  by (auto simp: datetime_add_def split: if_splits)

lemma date_add_error: "date_add d n = Inl err \<Longrightarrow> err = OverflowError"
  by (auto simp: date_add_def split: if_splits)

lemma revision_loop_stop:
  "\<not> (revised < quota \<and> remaining > 1/10) \<Longrightarrow>
   revision_loop today nm d maxd brk quota tpt ts (revised, remaining, used, cst, ds)
     = Inr (revised, remaining, used, cst, ds)"
  by (cases ts) auto

lemma revision_loop_skip:
  "min3 maxd remaining tpt < 1/10 \<Longrightarrow>
   revision_loop today nm d maxd brk quota tpt ts (revised, remaining, used, cst, ds)
     = Inr (revised, remaining, used, cst, ds)"
  by (induction ts) (auto simp: Let_def)

lemma revision_loop_step:
  assumes "revised < quota" "remaining > 1/10"
    and "dur = min3 maxd remaining tpt" "\<not> dur < 1/10"
  shows "revision_loop today nm d maxd brk quota tpt (t # ts) (revised, remaining, used, cst, ds) =
     (case datetime_add (datetime_combine today cst) dur of
        Inl err \<Rightarrow> Inl err
      | Inr end_dt \<Rightarrow>
         (if remaining - dur > 1/10 then
            (case datetime_add end_dt brk of
               Inl err \<Rightarrow> Inl err
             | Inr break_end \<Rightarrow>
                 revision_loop today nm d maxd brk quota tpt ts
                   (revised + 1, remaining - dur - brk, used + dur + brk, wrap24 break_end,
                    ds @ [revision_session today nm t d cst dur]))
          else revision_loop today nm d maxd brk quota tpt ts
                 (revised + 1, remaining - dur, used + dur, wrap24 end_dt,
                  ds @ [revision_session today nm t d cst dur])))"
  using assms(1,2,4) unfolding assms(3)
  by (auto simp: Let_def revision_session_def split: sum.splits dest: datetime_add_Inr)

lemma revision_loop_sessions:
  "revision_loop today nm d maxd brk quota tpt ts (revised, remaining, used, cst, ds)
     = Inr (revised', remaining', used', cst', ds') \<Longrightarrow>
   \<exists>new. ds' = ds @ new \<and> revised' = revised + length new \<and> length new \<le> length ts \<and>
     (revised < quota \<longrightarrow> revised' \<le> quota) \<and>
     remaining' + used' = remaining + used \<and>
     used' = used + charged remaining brk (map duration_hours new) \<and>
     map ss_topic new = map rev_label (take (length new) ts) \<and>
     (\<forall>x \<in> set new. ss_subject x = nm \<and> ss_date x = d \<and> session_type x = ''revision'' \<and>
        1/10 \<le> duration_hours x \<and> duration_hours x \<le> maxd \<and> duration_hours x \<le> tpt) \<and>
     (\<forall>i < length new. duration_hours (new ! i) =
        min3 maxd (remaining - (sum_list (map duration_hours (take i new)) + of_nat i * brk)) tpt) \<and>
     (revised' \<ge> quota \<or> remaining' \<le> 1/10 \<or> min3 maxd remaining' tpt < 1/10 \<or>
        length new = length ts)"
proof (induction ts arbitrary: revised remaining used cst ds)
  case Nil
  then show ?case by simp
next
  case (Cons t ts)
  define dur where "dur = min3 maxd remaining tpt"
  show ?case
  proof (cases "revised < quota \<and> remaining > 1/10")
    case False
    with Cons.prems have "ds' = ds" "revised' = revised" "remaining' = remaining" "used' = used"
      by (auto simp: revision_loop_stop)
    with False show ?thesis by auto
  next
    case go: True
    show ?thesis
    proof (cases "dur < 1/10")
      case True
      with Cons.prems have "ds' = ds" "revised' = revised" "remaining' = remaining" "used' = used"
        using revision_loop_skip[of maxd remaining tpt today nm d brk quota "t # ts"]
        by (auto simp: dur_def)
      with True show ?thesis by (auto simp: dur_def)
    next
      case dur: False
      define x where "x = revision_session today nm t d cst dur"
      define g where "g = (if remaining - dur > 1/10 then brk else 0)"
      note step = revision_loop_step[of revised quota remaining dur maxd tpt today nm d brk t ts
                     used cst ds, OF _ _ dur_def dur]
      obtain cst1 where rec:
        "revision_loop today nm d maxd brk quota tpt ts
           (revised + 1, remaining - dur - g, used + dur + g, cst1, ds @ [x])
          = Inr (revised', remaining', used', cst', ds')"
        using Cons.prems go unfolding step[OF go[THEN conjunct1] go[THEN conjunct2]]
        by (auto simp: x_def g_def split: sum.splits if_splits)
      from Cons.IH[OF rec] obtain new where new:
        "ds' = (ds @ [x]) @ new" "revised' = revised + 1 + length new" "length new \<le> length ts"
        "revised + 1 < quota \<longrightarrow> revised' \<le> quota"
        "remaining' + used' = remaining - dur - g + (used + dur + g)"
        "used' = used + dur + g + charged (remaining - dur - g) brk (map duration_hours new)"
        "map ss_topic new = map rev_label (take (length new) ts)"
        "\<forall>x \<in> set new. ss_subject x = nm \<and> ss_date x = d \<and> session_type x = ''revision'' \<and>
           1/10 \<le> duration_hours x \<and> duration_hours x \<le> maxd \<and> duration_hours x \<le> tpt"
        "\<forall>i < length new. duration_hours (new ! i) =
           min3 maxd (remaining - dur - g - (sum_list (map duration_hours (take i new)) + of_nat i * brk)) tpt"
        "revised' \<ge> quota \<or> remaining' \<le> 1/10 \<or> min3 maxd remaining' tpt < 1/10 \<or>
           length new = length ts"
        by (elim exE conjE) (rule that)
      have dx: "duration_hours x = dur" by (simp add: x_def revision_session_def)
      have nobreak: "new = []" if "\<not> remaining - dur > 1/10"
      proof -
        from that have "\<not> (revised + 1 < quota \<and> remaining - dur - g > 1/10)"
          by (simp add: g_def)
        from revision_loop_stop[OF this] rec new(1) show ?thesis by simp
      qed
      have quota': "revised' \<le> quota"
      proof (cases "revised + 1 < quota")
        case True with new(4) show ?thesis by simp
      next
        case False
        then have "\<not> (revised + 1 < quota \<and> remaining - dur - g > 1/10)" by simp
        from revision_loop_stop[OF this] rec go show ?thesis by simp
      qed
      have durs: "duration_hours ((x # new) ! i) =
           min3 maxd (remaining - (sum_list (map duration_hours (take i (x # new))) + of_nat i * brk)) tpt"
        if "i < length (x # new)" for i
      proof (cases i)
        case 0
        then show ?thesis by (simp add: dx dur_def)
      next
        case (Suc j)
        with that have j: "j < length new" by simp
        then have "new \<noteq> []" by auto
        with nobreak have gb: "g = brk" by (auto simp: g_def)
        have e: "remaining - dur - g - (sum_list (map duration_hours (take j new)) + of_nat j * brk) =
              remaining - (sum_list (map duration_hours (take i (x # new))) + of_nat i * brk)"
          unfolding gb Suc by (simp add: dx algebra_simps)
        have d2: "duration_hours ((x # new) ! i) = duration_hours (new ! j)"
          using Suc by simp
        from new(9) j have d1: "duration_hours (new ! j) =
           min3 maxd (remaining - dur - g - (sum_list (map duration_hours (take j new)) + of_nat j * brk)) tpt"
          by simp
        show ?thesis by (simp only: d2 d1 e)
      qed
      have ch: "charged remaining brk (map duration_hours (x # new)) =
                dur + g + charged (remaining - dur - g) brk (map duration_hours new)"
        by (simp add: dx g_def)
      have "ds' = ds @ (x # new)" using new(1) by simp
      moreover have "revised' = revised + length (x # new)" using new(2) by simp
      moreover have "length (x # new) \<le> length (t # ts)" using new(3) by simp
      moreover have "revised < quota \<longrightarrow> revised' \<le> quota" using quota' by simp
      moreover have "remaining' + used' = remaining + used"
        using new(5) by simp
      moreover have "used' = used + charged remaining brk (map duration_hours (x # new))"
        unfolding ch using new(6) by simp
      moreover have "map ss_topic (x # new) = map rev_label (take (length (x # new)) (t # ts))"
        using new(7) by (simp add: x_def revision_session_def rev_label_def)
      moreover have "\<forall>y \<in> set (x # new). ss_subject y = nm \<and> ss_date y = d \<and> session_type y = ''revision'' \<and>
           1/10 \<le> duration_hours y \<and> duration_hours y \<le> maxd \<and> duration_hours y \<le> tpt"
        using new(8) dur by (auto simp: x_def revision_session_def dur_def min3_le)
      moreover have "revised' \<ge> quota \<or> remaining' \<le> 1/10 \<or> min3 maxd remaining' tpt < 1/10 \<or>
           length (x # new) = length (t # ts)"
        using new(10) by simp
      ultimately show ?thesis using durs by blast
    qed
  qed
qed

lemma regular_loop_end:
  "\<not> current_topic_index s < length (topics s) \<Longrightarrow>
   regular_loop today s d ct avail maxd brk ds = Inr (s\<lparr>subject_completed := True\<rparr>, ds, 0, ct)"
  by (subst regular_loop.simps) simp

lemma regular_loop_skip:
  "current_topic_index s < length (topics s) \<Longrightarrow>
   topic_done (topics s ! current_topic_index s) \<Longrightarrow>
   regular_loop today s d ct avail maxd brk ds =
   regular_loop today (s\<lparr>current_topic_index := current_topic_index s + 1\<rparr>) d ct avail maxd brk ds"
  by (subst regular_loop.simps) (simp add: Let_def topic_done_def)

lemma regular_loop_study:
  assumes "current_topic_index s < length (topics s)"
    and "\<not> topic_done (topics s ! current_topic_index s)"
    and "t = topics s ! current_topic_index s"
    and "dur = min3 maxd avail (remaining_hours t)"
  shows "regular_loop today s d ct avail maxd brk ds =
     (case datetime_add (datetime_combine today ct) dur of
        Inl err \<Rightarrow> Inl err
      | Inr end_dt \<Rightarrow>
         (if avail - dur > 1/100 then
            (case datetime_add end_dt brk of
               Inl err \<Rightarrow> Inl err
             | Inr break_end \<Rightarrow>
                Inr (s\<lparr>topics := (topics s)[current_topic_index s := study_topic dur t],
                       current_topic_index := (if remaining_hours t - dur \<le> 1/100
                          then current_topic_index s + 1 else current_topic_index s)\<rparr>,
                     ds @ [regular_session today (s_name s) t d ct dur], dur + brk,
                     wrap24 break_end))
          else
            Inr (s\<lparr>topics := (topics s)[current_topic_index s := study_topic dur t],
                   current_topic_index := (if remaining_hours t - dur \<le> 1/100
                      then current_topic_index s + 1 else current_topic_index s)\<rparr>,
                 ds @ [regular_session today (s_name s) t d ct dur], dur, wrap24 end_dt)))"
  using assms(1,2) unfolding assms(3,4)
  by (subst regular_loop.simps)
     (auto simp: Let_def topic_done_def study_topic_def regular_session_def
           split: sum.splits dest: datetime_add_Inr)

text \<open>
  Every property of a result of the regular loop follows from two cases: the cursor ran
  past the last topic, or one session was given to the first unfinished topic at or after
  the cursor, the clock arithmetic being in range.
\<close>

lemma regular_loop_rule:
  assumes res: "regular_loop today s d ct avail maxd brk ds = Inr r"
    and fin: "\<And>c. current_topic_index s \<le> c \<Longrightarrow>
      (\<forall>j. current_topic_index s \<le> j \<and> j < length (topics s) \<longrightarrow> topic_done (topics s ! j)) \<Longrightarrow>
      P (s\<lparr>current_topic_index := c, subject_completed := True\<rparr>, ds, 0, ct)"
    and study: "\<And>j t dur g. current_topic_index s \<le> j \<Longrightarrow> j < length (topics s) \<Longrightarrow>
      t = topics s ! j \<Longrightarrow> \<not> topic_done t \<Longrightarrow>
      (\<forall>k. current_topic_index s \<le> k \<and> k < j \<longrightarrow> topic_done (topics s ! k)) \<Longrightarrow>
      dur = min3 maxd avail (remaining_hours t) \<Longrightarrow>
      g = break_after (1/100) avail dur brk \<Longrightarrow>
      P (s\<lparr>topics := (topics s)[j := study_topic dur t],
            current_topic_index := (if remaining_hours t - dur \<le> 1/100 then j + 1 else j)\<rparr>,
         ds @ [regular_session today (s_name s) t d ct dur], dur + g,
         wrap24 (datetime_combine today ct + dur + g))"
  shows "P r"
  using res fin study
proof (induction today s d ct avail maxd brk ds rule: regular_loop.induct)
  case (1 today s d ct avail maxd brk ds)
  let ?i = "current_topic_index s"
  show ?case
  proof (cases "?i < length (topics s)")
    case False
    have "P (s\<lparr>current_topic_index := ?i, subject_completed := True\<rparr>, ds, 0, ct)"
      using False by (intro "1.prems"(2)) auto
    then show ?thesis using False "1.prems"(1) by (simp add: regular_loop_end)
  next
    case inb: True
    show ?thesis
    proof (cases "topic_done (topics s ! ?i)")
      case False
      define t where "t = topics s ! ?i"
      define dur where "dur = min3 maxd avail (remaining_hours t)"
      define g where "g = break_after (1/100) avail dur brk"
      have "P (s\<lparr>topics := (topics s)[?i := study_topic dur t],
            current_topic_index := (if remaining_hours t - dur \<le> 1/100 then ?i + 1 else ?i)\<rparr>,
         ds @ [regular_session today (s_name s) t d ct dur], dur + g,
         wrap24 (datetime_combine today ct + dur + g))"
        using inb False by (intro "1.prems"(3)) (auto simp: t_def dur_def g_def)
      moreover have "r = (s\<lparr>topics := (topics s)[?i := study_topic dur t],
            current_topic_index := (if remaining_hours t - dur \<le> 1/100 then ?i + 1 else ?i)\<rparr>,
         ds @ [regular_session today (s_name s) t d ct dur], dur + g,
         wrap24 (datetime_combine today ct + dur + g))"
        using "1.prems"(1)
        unfolding regular_loop_study[OF inb False t_def dur_def]
        by (auto simp: g_def break_after_def split: sum.splits if_splits dest!: datetime_add_Inr)
      ultimately show ?thesis by simp
    next
      case True
      let ?s1 = "s\<lparr>current_topic_index := ?i + 1\<rparr>"
      have rec: "regular_loop today ?s1 d ct avail maxd brk ds = Inr r"
        using "1.prems"(1) inb True by (simp add: regular_loop_skip)
      show ?thesis
      proof (rule "1.IH"[OF inb refl refl _ rec], goal_cases)
        case 1
        show ?case using True by (simp add: topic_done_def)
      next
        case (2 c)
        have "P (s\<lparr>current_topic_index := c, subject_completed := True\<rparr>, ds, 0, ct)"
        proof (rule "1.prems"(2))
          show "?i \<le> c" using 2(1) by simp
          show "\<forall>j. ?i \<le> j \<and> j < length (topics s) \<longrightarrow> topic_done (topics s ! j)"
          proof (intro allI impI)
            fix j assume j: "?i \<le> j \<and> j < length (topics s)"
            show "topic_done (topics s ! j)"
            proof (cases "j = ?i")
              case True with \<open>topic_done (topics s ! ?i)\<close> show ?thesis by simp
            next
              case False with j 2(2) show ?thesis by simp
            qed
          qed
        qed
        then show ?case by simp
      next
        case (3 j t dur g)
        have "P (s\<lparr>topics := (topics s)[j := study_topic dur t],
                  current_topic_index := (if remaining_hours t - dur \<le> 1/100 then j + 1 else j)\<rparr>,
               ds @ [regular_session today (s_name s) t d ct dur], dur + g,
               wrap24 (datetime_combine today ct + dur + g))"
        proof (rule "1.prems"(3))
          show "?i \<le> j" using 3(1) by simp
          show "j < length (topics s)" using 3(2) by simp
          show "t = topics s ! j" using 3(3) by simp
          show "\<not> topic_done t" by (rule 3(4))
          show "dur = min3 maxd avail (remaining_hours t)" by (rule 3(6))
          show "g = break_after (1/100) avail dur brk" by (rule 3(7))
          show "\<forall>k. ?i \<le> k \<and> k < j \<longrightarrow> topic_done (topics s ! k)"
          proof (intro allI impI)
            fix k assume k: "?i \<le> k \<and> k < j"
            show "topic_done (topics s ! k)"
            proof (cases "k = ?i")
              case True with \<open>topic_done (topics s ! ?i)\<close> show ?thesis by simp
            next
              case False with k 3(5) show ?thesis by simp
            qed
          qed
        qed
        then show ?case by simp
      qed
    qed
  qed
qed

lemma add_regular_session_cases:
  assumes "add_regular_session today s d ct avail maxd brk ds = Inr r"
  obtains
    (skip) "subject_completed s" "r = (s, ds, 0, ct)"
  | (fin) c where "\<not> subject_completed s" "current_topic_index s \<le> c"
      "\<forall>j. current_topic_index s \<le> j \<and> j < length (topics s) \<longrightarrow> topic_done (topics s ! j)"
      "r = (s\<lparr>current_topic_index := c, subject_completed := True\<rparr>, ds, 0, ct)"
  | (study) j t dur g where "\<not> subject_completed s" "current_topic_index s \<le> j"
      "j < length (topics s)" "t = topics s ! j" "\<not> topic_done t"
      "\<forall>k. current_topic_index s \<le> k \<and> k < j \<longrightarrow> topic_done (topics s ! k)"
      "dur = min3 maxd avail (remaining_hours t)"
      "g = break_after (1/100) avail dur brk"
      "r = (s\<lparr>topics := (topics s)[j := study_topic dur t],
             current_topic_index := (if remaining_hours t - dur \<le> 1/100 then j + 1 else j)\<rparr>,
           ds @ [regular_session today (s_name s) t d ct dur], dur + g,
           wrap24 (datetime_combine today ct + dur + g))"
proof (cases "subject_completed s")
  case True
  with assms skip show ?thesis by (simp add: add_regular_session_def)
next
  case False
  with assms have res: "regular_loop today s d ct avail maxd brk ds = Inr r"
    by (simp add: add_regular_session_def)
  define P where "P = (\<lambda>x. x = r \<longrightarrow> thesis)"
  have "P r"
  proof (rule regular_loop_rule[OF res])
    fix c
    assume "current_topic_index s \<le> c"
      "\<forall>j. current_topic_index s \<le> j \<and> j < length (topics s) \<longrightarrow> topic_done (topics s ! j)"
    then show "P (s\<lparr>current_topic_index := c, subject_completed := True\<rparr>, ds, 0, ct)"
      unfolding P_def using fin[of c] False by simp
  next
    fix j t dur g
    assume "current_topic_index s \<le> j"
      "j < length (topics s)" "t = topics s ! j" "\<not> topic_done t"
      "\<forall>k. current_topic_index s \<le> k \<and> k < j \<longrightarrow> topic_done (topics s ! k)"
      "dur = min3 maxd avail (remaining_hours t)"
      "g = break_after (1/100) avail dur brk"
    then show "P (s\<lparr>topics := (topics s)[j := study_topic dur t],
            current_topic_index := (if remaining_hours t - dur \<le> 1/100 then j + 1 else j)\<rparr>,
          ds @ [regular_session today (s_name s) t d ct dur], dur + g,
          wrap24 (datetime_combine today ct + dur + g))"
      unfolding P_def using study[of j t dur g] False by simp
  qed
  then show thesis by (simp add: P_def)
qed

lemma add_revision_session_cases:
  assumes "add_revision_session today s d ct avail maxd brk ds = Inr r"
  obtains
    (skip) "revision_completed s \<or> subject_completed s \<or> revision_quota s = 0"
      "r = (s, ds, 0, ct)"
  | (run) revised remaining used cst ds' where
      "\<not> revision_completed s" "\<not> subject_completed s" "0 < revision_quota s"
      "revision_loop today (s_name s) d maxd brk (revision_quota s) (time_per_topic s avail)
         (topics s) (0, avail, 0, ct, ds) = Inr (revised, remaining, used, cst, ds')"
      "r = (if revised \<ge> min 3 (total_topics s) then s\<lparr>revision_completed := True\<rparr> else s,
            ds', used, cst)"
proof (cases "revision_completed s \<or> subject_completed s \<or> revision_quota s = 0")
  case True
  then have "add_revision_session today s d ct avail maxd brk ds = Inr (s, ds, 0, ct)"
    by (auto simp: add_revision_session_def revision_quota_def Let_def)
  with assms skip[OF True] show ?thesis by simp
next
  case False
  have nz: "min (total_topics s) 5 \<noteq> 0"
    using False by (simp add: revision_quota_def)
  have eq: "add_revision_session today s d ct avail maxd brk ds =
     (case revision_loop today (s_name s) d maxd brk (revision_quota s) (time_per_topic s avail)
             (topics s) (0, avail, 0, ct, ds) of
        Inl err \<Rightarrow> Inl err
      | Inr (revised, remaining, used, cst, ds') \<Rightarrow>
          Inr (if revised \<ge> min 3 (total_topics s)
               then s\<lparr>revision_completed := True\<rparr> else s, ds', used, cst))"
    using False nz
    unfolding add_revision_session_def revision_quota_def time_per_topic_def py_div_def Let_def
    by (simp del: min_less_iff_conj min.bounded_iff)
  from assms obtain revised remaining used cst ds' where
    loop: "revision_loop today (s_name s) d maxd brk (revision_quota s) (time_per_topic s avail)
         (topics s) (0, avail, 0, ct, ds) = Inr (revised, remaining, used, cst, ds')"
    and r: "r = (if revised \<ge> min 3 (total_topics s) then s\<lparr>revision_completed := True\<rparr> else s,
            ds', used, cst)"
    unfolding eq by (auto split: sum.splits prod.splits)
  from run[OF _ _ _ loop r] False show ?thesis by simp
qed

lemma add_revision_session_no_division_error:
  "add_revision_session today s d ct avail maxd brk ds \<noteq> Inl ZeroDivisionError \<and>
   add_revision_session today s d ct avail maxd brk ds \<noteq> Inl TypeError"
proof -
  have loop: "revision_loop today nm d maxd brk quota tpt ts st = Inl err \<Longrightarrow> err = OverflowError"
    for nm quota tpt ts st err
  proof (induction ts arbitrary: st)
    case Nil
    then show ?case by simp
  next
    case (Cons t ts)
    obtain revised remaining used cst ds where st: "st = (revised, remaining, used, cst, ds)"
      by (metis prod_cases5)
    show ?case
      using Cons.prems Cons.IH unfolding st
      by (auto simp: Let_def split: if_splits sum.splits dest: datetime_add_error)
  qed
  show ?thesis
    by (auto simp: add_revision_session_def py_div_def Let_def
          split: if_splits sum.splits dest: loop)
qed

lemma wrap24_range: "time_of_day (wrap24 x)"
proof -
  have "of_int \<lfloor>x / 24\<rfloor> \<le> x / 24" "x / 24 < of_int \<lfloor>x / 24\<rfloor> + 1"
    using floor_correct[of "x / 24"] by simp_all
  then have "24 * of_int \<lfloor>x / 24\<rfloor> \<le> x" "x < 24 * of_int \<lfloor>x / 24\<rfloor> + 24"
    by (simp_all add: field_simps)
  then show ?thesis by (simp add: wrap24_def time_of_day_def)
qed

lemma datetime_add_in_range:
  assumes "2 \<le> today" "today \<le> max_ordinal - 2" "time_of_day ct"
    and "- 24 \<le> h" "h \<le> 24"
  shows "datetime_add (datetime_combine today ct) h = Inr (datetime_combine today ct + h)"
proof -
  have "(1::rat) \<le> of_int (today - 1)" using assms(1) by simp
  moreover have "of_int (today - 1) \<le> (of_int (max_ordinal - 3) :: rat)"
    using assms(2) by (simp only: of_int_le_iff)
  ultimately have "24 \<le> datetime_combine today ct"
    "datetime_combine today ct < of_int max_ordinal * 24 - 48"
    using assms(3) by (simp_all add: datetime_combine_def time_of_day_def max_ordinal_def)
  with assms(4,5) show ?thesis by (simp add: datetime_add_def)
qed

lemma datetime_add_break:
  assumes "clock_in_range today maxd brk" "time_of_day ct" "- 12 \<le> dur" "dur \<le> 12"
  shows "datetime_add (datetime_combine today ct) dur = Inr (datetime_combine today ct + dur)"
    and "datetime_add (datetime_combine today ct + dur) brk
           = Inr (datetime_combine today ct + dur + brk)"
proof -
  from assms(1) have t: "2 \<le> today" "today \<le> max_ordinal - 2" and b: "- 12 \<le> brk" "brk \<le> 12"
    by (auto simp: clock_in_range_def abs_le_iff)
  show "datetime_add (datetime_combine today ct) dur = Inr (datetime_combine today ct + dur)"
    using assms(3,4) by (intro datetime_add_in_range[OF t assms(2)]) simp_all
  have "datetime_add (datetime_combine today ct) (dur + brk)
          = Inr (datetime_combine today ct + (dur + brk))"
    using assms(3,4) b by (intro datetime_add_in_range[OF t assms(2)]) simp_all
  then have "0 \<le> datetime_combine today ct + (dur + brk) \<and>
             datetime_combine today ct + (dur + brk) < of_int max_ordinal * 24"
    by (auto simp: datetime_add_def split: if_splits)
  then show "datetime_add (datetime_combine today ct + dur) brk
           = Inr (datetime_combine today ct + dur + brk)"
    using b by (simp add: datetime_add_def algebra_simps)
qed

lemma revision_loop_total:
  assumes "clock_in_range today maxd brk" "tpt \<le> 12"
  shows "time_of_day cst \<Longrightarrow>
         \<exists>r. revision_loop today nm d maxd brk quota tpt ts (revised, remaining, used, cst, ds) = Inr r"
proof (induction ts arbitrary: revised remaining used cst ds)
  case Nil
  then show ?case by simp
next
  case (Cons t ts)
  define dur where "dur = min3 maxd remaining tpt"
  show ?case
  proof (cases "revised < quota \<and> remaining > 1/10")
    case False
    show ?thesis by (subst revision_loop_stop[OF False]) simp
  next
    case go: True
    show ?thesis
    proof (cases "dur < 1/10")
      case True
      then have "min3 maxd remaining tpt < 1/10" by (simp add: dur_def)
      then show ?thesis by (subst revision_loop_skip) simp_all
    next
      case False
      then have lo: "- 12 \<le> dur" by simp
      have hi: "dur \<le> 12" using min3_le(3)[of maxd remaining tpt] assms(2) by (simp add: dur_def)
      note ok = datetime_add_break[OF assms(1) Cons.prems lo hi]
      note step = revision_loop_step[of revised quota remaining dur maxd tpt today nm d brk t ts
                     used cst ds, OF go[THEN conjunct1] go[THEN conjunct2] dur_def False]
      show ?thesis
        unfolding step ok
        using Cons.IH[OF wrap24_range] by (simp add: ok)
    qed
  qed
qed

lemma add_revision_session_total:
  assumes "clock_in_range today maxd brk" "time_of_day ct"
  shows "\<exists>r. add_revision_session today s d ct avail maxd brk ds = Inr r"
proof -
  have "min (1/2) q \<le> (12::rat)" for q by simp
  from revision_loop_total[OF assms(1) this assms(2)]
  show ?thesis
    by (auto simp: add_revision_session_def py_div_def Let_def split: sum.splits prod.splits)
       (metis sum.distinct(1))
qed

lemma regular_loop_total:
  assumes "clock_in_range today maxd brk" "time_of_day ct" "- 12 \<le> avail"
  shows "\<exists>r. regular_loop today s d ct avail maxd brk ds = Inr r"
proof (induction "length (topics s) - current_topic_index s" arbitrary: s rule: less_induct)
  case less
  let ?i = "current_topic_index s"
  show ?case
  proof (cases "?i < length (topics s)")
    case False
    then show ?thesis by (simp add: regular_loop_end)
  next
    case inb: True
    show ?thesis
    proof (cases "topic_done (topics s ! ?i)")
      case True
      have "\<exists>r. regular_loop today (s\<lparr>current_topic_index := ?i + 1\<rparr>) d ct avail maxd brk ds = Inr r"
        using inb by (intro less) simp
      then show ?thesis using inb True by (simp add: regular_loop_skip)
    next
      case False
      define dur where "dur = min3 maxd avail (remaining_hours (topics s ! ?i))"
      from assms(1) have m: "- 12 \<le> maxd" "maxd \<le> 12"
        by (auto simp: clock_in_range_def abs_le_iff)
      from False have "- 12 \<le> remaining_hours (topics s ! ?i)" by (simp add: topic_done_def)
      with m(1) assms(3) have lo: "- 12 \<le> dur" unfolding dur_def by (intro min3_ge)
      have hi: "dur \<le> 12" using min3_le(1)[of maxd avail "remaining_hours (topics s ! ?i)"] m(2)
        by (simp add: dur_def)
      note ok = datetime_add_break[OF assms(1,2) lo hi]
      show ?thesis
        unfolding regular_loop_study[OF inb False refl dur_def] by (simp add: ok)
    qed
  qed
qed

lemma add_regular_session_total:
  assumes "clock_in_range today maxd brk" "time_of_day ct" "- 12 \<le> avail"
  shows "\<exists>r. add_regular_session today s d ct avail maxd brk ds = Inr r"
  using regular_loop_total[OF assms] by (simp add: add_regular_session_def)

text \<open>
  C10. A call to the revision allocator that returns leaves the topics (their remaining
  hours and completed flags), the cursor and the subject_completed flag as they were: the
  subject it returns is the subject it was given, or that subject with
  revision_completed set. The call returns whenever the clock arithmetic stays in range.
\<close>

theorem revision_allocator_frame:
  "(\<forall>s' ds' used ct'.
      add_revision_session today s d ct budget maxd brk ds = Inr (s', ds', used, ct') \<longrightarrow>
      (s' = s \<or> s' = s\<lparr>revision_completed := True\<rparr>) \<and>
      topics s' = topics s \<and>
      current_topic_index s' = current_topic_index s \<and>
      subject_completed s' = subject_completed s) \<and>
   (clock_in_range today maxd brk \<and> time_of_day ct \<longrightarrow>
      (\<exists>r. add_revision_session today s d ct budget maxd brk ds = Inr r))"
proof (rule conjI)
  show "\<forall>s' ds' used ct'.
      add_revision_session today s d ct budget maxd brk ds = Inr (s', ds', used, ct') \<longrightarrow>
      (s' = s \<or> s' = s\<lparr>revision_completed := True\<rparr>) \<and>
      topics s' = topics s \<and>
      current_topic_index s' = current_topic_index s \<and>
      subject_completed s' = subject_completed s"
  proof (intro allI impI)
    fix s' ds' used ct'
    assume "add_revision_session today s d ct budget maxd brk ds = Inr (s', ds', used, ct')"
    then show "(s' = s \<or> s' = s\<lparr>revision_completed := True\<rparr>) \<and>
        topics s' = topics s \<and>
        current_topic_index s' = current_topic_index s \<and>
        subject_completed s' = subject_completed s"
      by (cases rule: add_revision_session_cases) auto
  qed
  show "clock_in_range today maxd brk \<and> time_of_day ct \<longrightarrow>
      (\<exists>r. add_revision_session today s d ct budget maxd brk ds = Inr r)"
    using add_revision_session_total[of today maxd brk ct s d budget ds] by blast
qed

theorem revision_allocator_frame_witness:
  "add_revision_session 739190 (init_subject bio) 739194 9 2 (3/2) (1/4) [] =
     Inr ((init_subject bio)\<lparr>revision_completed := True\<rparr>,
          [\<lparr>ss_subject = ''Bio'', ss_topic = ''Revision: T1'', ss_date = 739194,
            start_time = 9, end_time = 19/2, duration_hours = 1/2, session_type = ''revision''\<rparr>,
           \<lparr>ss_subject = ''Bio'', ss_topic = ''Revision: T2'', ss_date = 739194,
            start_time = 39/4, end_time = 41/4, duration_hours = 1/2, session_type = ''revision''\<rparr>,
           \<lparr>ss_subject = ''Bio'', ss_topic = ''Revision: T3'', ss_date = 739194,
            start_time = 21/2, end_time = 11, duration_hours = 1/2, session_type = ''revision''\<rparr>],
          2, 11) \<and>
   topics ((init_subject bio)\<lparr>revision_completed := True\<rparr>) = topics (init_subject bio) \<and>
   current_topic_index ((init_subject bio)\<lparr>revision_completed := True\<rparr>)
     = current_topic_index (init_subject bio) \<and>
   subject_completed ((init_subject bio)\<lparr>revision_completed := True\<rparr>)
     = subject_completed (init_subject bio)"
proof -
  have e: "add_revision_session 739190 (init_subject bio) 739194 9 2 (3/2) (1/4) [] =
     Inr ((init_subject bio)\<lparr>revision_completed := True\<rparr>,
          [\<lparr>ss_subject = ''Bio'', ss_topic = ''Revision: T1'', ss_date = 739194,
            start_time = 9, end_time = 19/2, duration_hours = 1/2, session_type = ''revision''\<rparr>,
           \<lparr>ss_subject = ''Bio'', ss_topic = ''Revision: T2'', ss_date = 739194,
            start_time = 39/4, end_time = 41/4, duration_hours = 1/2, session_type = ''revision''\<rparr>,
           \<lparr>ss_subject = ''Bio'', ss_topic = ''Revision: T3'', ss_date = 739194,
            start_time = 21/2, end_time = 11, duration_hours = 1/2, session_type = ''revision''\<rparr>],
          2, 11)"
    by code_simp
  from revision_allocator_frame[of 739190 "init_subject bio" 739194 9 2 "3/2" "1/4" "[]"] e
  show ?thesis by simp
qed

lemma add_revision_session_result:
  assumes "\<not> revision_completed s" "\<not> subject_completed s"
    and "add_revision_session today s d ct budget maxd brk ds = Inr (s', ds', used, ct')"
  shows "\<exists>new.
     ds' = ds @ new \<and>
     s' = (if length new \<ge> min 3 (total_topics s) \<and> 0 < revision_quota s
           then s\<lparr>revision_completed := True\<rparr> else s) \<and>
     used = charged budget brk (map duration_hours new) \<and>
     length new \<le> revision_quota s \<and>
     map ss_topic new = map rev_label (take (length new) (topics s)) \<and>
     (\<forall>x \<in> set new. ss_subject x = s_name s \<and> ss_date x = d \<and> session_type x = ''revision'' \<and>
        1/10 \<le> duration_hours x \<and> duration_hours x \<le> maxd \<and>
        duration_hours x \<le> time_per_topic s budget) \<and>
     (\<forall>i < length new. duration_hours (new ! i) =
        min3 maxd (budget - (sum_list (map duration_hours (take i new)) + of_nat i * brk))
          (time_per_topic s budget)) \<and>
     (length new = revision_quota s \<or> budget - used \<le> 1/10 \<or>
        min3 maxd (budget - used) (time_per_topic s budget) < 1/10)"
  using assms(3)
proof (cases rule: add_revision_session_cases)
  case skip
  with assms have "revision_quota s = 0" by simp
  with skip(2) show ?thesis by (intro exI[of _ "[]"]) simp
next
  case (run revised remaining used1 cst ds1)
  from run(5) have eqs: "ds1 = ds'" "used1 = used"
    "s' = (if revised \<ge> min 3 (total_topics s) then s\<lparr>revision_completed := True\<rparr> else s)"
    by simp_all
  from revision_loop_sessions[OF run(4)] obtain new where new:
    "ds1 = ds @ new" "revised = 0 + length new" "length new \<le> length (topics s)"
    "0 < revision_quota s \<longrightarrow> revised \<le> revision_quota s"
    "remaining + used1 = budget + 0"
    "used1 = 0 + charged budget brk (map duration_hours new)"
    "map ss_topic new = map rev_label (take (length new) (topics s))"
    "\<forall>x \<in> set new. ss_subject x = s_name s \<and> ss_date x = d \<and> session_type x = ''revision'' \<and>
        1/10 \<le> duration_hours x \<and> duration_hours x \<le> maxd \<and>
        duration_hours x \<le> time_per_topic s budget"
    "\<forall>i < length new. duration_hours (new ! i) =
        min3 maxd (budget - (sum_list (map duration_hours (take i new)) + of_nat i * brk))
          (time_per_topic s budget)"
    "revised \<ge> revision_quota s \<or> remaining \<le> 1/10 \<or>
       min3 maxd remaining (time_per_topic s budget) < 1/10 \<or> length new = length (topics s)"
    by (elim exE conjE) (rule that)
  have rem: "remaining = budget - used" using new(5) eqs(2) by (simp add: algebra_simps)
  have len: "length new \<le> revision_quota s" using new(2,4) run(3) by simp
  have "revision_quota s \<le> length (topics s)"
    by (simp add: revision_quota_def total_topics_def min.coboundedI1)
  with new(10) len new(2)
  have stop: "length new = revision_quota s \<or> budget - used \<le> 1/10 \<or>
        min3 maxd (budget - used) (time_per_topic s budget) < 1/10"
    unfolding rem by auto
  have s': "s' = (if length new \<ge> min 3 (total_topics s) \<and> 0 < revision_quota s
           then s\<lparr>revision_completed := True\<rparr> else s)"
    using eqs(3) run(3) new(2) by simp
  have u: "used = charged budget brk (map duration_hours new)"
    using new(6) eqs(2) by simp
  have d: "ds' = ds @ new" using new(1) eqs(1) by simp
  show ?thesis
    using d s' u new(7,8,9) len stop
    by (intro exI[of _ new]) simp
qed

text \<open>
  C7. Run on a subject whose revision is still due, the revision allocator, when it
  returns, has appended one revision session for each of the first topics of the subject,
  in list order and whatever their completion state, at most \<open>min(number of topics not
  completed, 5)\<close> of them. The session of the i-th topic lasts \<open>min(session_duration,
  remaining budget, min(0.5, budget / topics_to_revise))\<close>, the remaining budget being the
  budget less the earlier sessions and the breaks after them, and no session is shorter
  than 0.1 hours. The hours it reports as used are those of the sessions and of one break
  after each session that leaves more than 0.1 hours of budget. It stops with the quota
  reached, or with at most 0.1 hours of budget left, or with the next slice under 0.1
  hours. The allocator returns whenever the clock arithmetic stays in range.
\<close>

theorem revision_allocator_selection:
  assumes "\<not> revision_completed s" "\<not> subject_completed s"
  shows "(\<forall>s' ds' used ct'.
     add_revision_session today s d ct budget maxd brk ds = Inr (s', ds', used, ct') \<longrightarrow>
     (\<exists>new. ds' = ds @ new \<and>
        length new \<le> min (total_topics s) 5 \<and>
        map ss_topic new = map rev_label (take (length new) (topics s)) \<and>
        (\<forall>i < length new.
           session_type (new ! i) = ''revision'' \<and>
           ss_subject (new ! i) = s_name s \<and> ss_date (new ! i) = d \<and>
           1/10 \<le> duration_hours (new ! i) \<and>
           duration_hours (new ! i) =
             min3 maxd (budget - (sum_list (map duration_hours (take i new)) + of_nat i * brk))
               (min (1/2) (budget / of_nat (min (total_topics s) 5)))) \<and>
        used = charged budget brk (map duration_hours new) \<and>
        (length new = min (total_topics s) 5 \<or> budget - used \<le> 1/10 \<or>
           min3 maxd (budget - used) (min (1/2) (budget / of_nat (min (total_topics s) 5)))
             < 1/10))) \<and>
   (clock_in_range today maxd brk \<and> time_of_day ct \<longrightarrow>
      (\<exists>r. add_revision_session today s d ct budget maxd brk ds = Inr r))"
proof (rule conjI)
  show "\<forall>s' ds' used ct'.
     add_revision_session today s d ct budget maxd brk ds = Inr (s', ds', used, ct') \<longrightarrow>
     (\<exists>new. ds' = ds @ new \<and>
        length new \<le> min (total_topics s) 5 \<and>
        map ss_topic new = map rev_label (take (length new) (topics s)) \<and>
        (\<forall>i < length new.
           session_type (new ! i) = ''revision'' \<and>
           ss_subject (new ! i) = s_name s \<and> ss_date (new ! i) = d \<and>
           1/10 \<le> duration_hours (new ! i) \<and>
           duration_hours (new ! i) =
             min3 maxd (budget - (sum_list (map duration_hours (take i new)) + of_nat i * brk))
               (min (1/2) (budget / of_nat (min (total_topics s) 5)))) \<and>
        used = charged budget brk (map duration_hours new) \<and>
        (length new = min (total_topics s) 5 \<or> budget - used \<le> 1/10 \<or>
           min3 maxd (budget - used) (min (1/2) (budget / of_nat (min (total_topics s) 5)))
             < 1/10))"
  proof (intro allI impI)
    fix s' ds' used ct'
    assume "add_revision_session today s d ct budget maxd brk ds = Inr (s', ds', used, ct')"
    from add_revision_session_result[OF assms this] obtain new where r:
      "ds' = ds @ new"
      "used = charged budget brk (map duration_hours new)"
      "length new \<le> revision_quota s"
      "map ss_topic new = map rev_label (take (length new) (topics s))"
      "\<forall>x \<in> set new. ss_subject x = s_name s \<and> ss_date x = d \<and> session_type x = ''revision'' \<and>
          1/10 \<le> duration_hours x \<and> duration_hours x \<le> maxd \<and>
          duration_hours x \<le> time_per_topic s budget"
      "\<forall>i < length new. duration_hours (new ! i) =
          min3 maxd (budget - (sum_list (map duration_hours (take i new)) + of_nat i * brk))
            (time_per_topic s budget)"
      "length new = revision_quota s \<or> budget - used \<le> 1/10 \<or>
          min3 maxd (budget - used) (time_per_topic s budget) < 1/10"
      by (elim exE conjE) (rule that)
    have each: "session_type (new ! i) = ''revision'' \<and> ss_subject (new ! i) = s_name s \<and>
        ss_date (new ! i) = d \<and> 1/10 \<le> duration_hours (new ! i)"
      if "i < length new" for i
      using r(5) nth_mem[OF that] by simp
    show "\<exists>new. ds' = ds @ new \<and>
        length new \<le> min (total_topics s) 5 \<and>
        map ss_topic new = map rev_label (take (length new) (topics s)) \<and>
        (\<forall>i < length new.
           session_type (new ! i) = ''revision'' \<and>
           ss_subject (new ! i) = s_name s \<and> ss_date (new ! i) = d \<and>
           1/10 \<le> duration_hours (new ! i) \<and>
           duration_hours (new ! i) =
             min3 maxd (budget - (sum_list (map duration_hours (take i new)) + of_nat i * brk))
               (min (1/2) (budget / of_nat (min (total_topics s) 5)))) \<and>
        used = charged budget brk (map duration_hours new) \<and>
        (length new = min (total_topics s) 5 \<or> budget - used \<le> 1/10 \<or>
           min3 maxd (budget - used) (min (1/2) (budget / of_nat (min (total_topics s) 5)))
             < 1/10)"
      apply (rule exI[of _ new])
      using r(1,2,3,4,6,7) each
      unfolding revision_quota_def time_per_topic_def
      apply (intro conjI)
           apply assumption
          apply assumption
         apply assumption
        apply simp
       apply assumption
      apply assumption
      done
  qed
  show "clock_in_range today maxd brk \<and> time_of_day ct \<longrightarrow>
      (\<exists>r. add_revision_session today s d ct budget maxd brk ds = Inr r)"
    using add_revision_session_total[of today maxd brk ct s d budget ds] by blast
qed

theorem revision_allocator_selection_witness:
  "\<not> revision_completed (init_subject bio) \<and> \<not> subject_completed (init_subject bio) \<and>
   clock_in_range 739190 (3/2) (1/4) \<and> time_of_day 9 \<and>
   add_revision_session 739190 (init_subject bio) 739194 9 2 (3/2) (1/4) [] =
     Inr ((init_subject bio)\<lparr>revision_completed := True\<rparr>,
          [\<lparr>ss_subject = ''Bio'', ss_topic = ''Revision: T1'', ss_date = 739194,
            start_time = 9, end_time = 19/2, duration_hours = 1/2, session_type = ''revision''\<rparr>,
           \<lparr>ss_subject = ''Bio'', ss_topic = ''Revision: T2'', ss_date = 739194,
            start_time = 39/4, end_time = 41/4, duration_hours = 1/2, session_type = ''revision''\<rparr>,
           \<lparr>ss_subject = ''Bio'', ss_topic = ''Revision: T3'', ss_date = 739194,
            start_time = 21/2, end_time = 11, duration_hours = 1/2, session_type = ''revision''\<rparr>],
          2, 11) \<and>
   min (total_topics (init_subject bio)) 5 = 3 \<and>
   min3 (3/2) 2 (min (1/2) (2 / 3)) = 1/2 \<and>
   charged 2 (1/4) [1/2, 1/2, 1/2] = 2"
proof -
  have h: "\<not> revision_completed (init_subject bio)" "\<not> subject_completed (init_subject bio)"
    by (simp_all add: init_subject_def)
  have c: "clock_in_range 739190 (3/2) (1/4)" "time_of_day 9"
    by (simp_all add: clock_in_range_def time_of_day_def max_ordinal_def)
  have e: "add_revision_session 739190 (init_subject bio) 739194 9 2 (3/2) (1/4) [] =
     Inr ((init_subject bio)\<lparr>revision_completed := True\<rparr>,
          [\<lparr>ss_subject = ''Bio'', ss_topic = ''Revision: T1'', ss_date = 739194,
            start_time = 9, end_time = 19/2, duration_hours = 1/2, session_type = ''revision''\<rparr>,
           \<lparr>ss_subject = ''Bio'', ss_topic = ''Revision: T2'', ss_date = 739194,
            start_time = 39/4, end_time = 41/4, duration_hours = 1/2, session_type = ''revision''\<rparr>,
           \<lparr>ss_subject = ''Bio'', ss_topic = ''Revision: T3'', ss_date = 739194,
            start_time = 21/2, end_time = 11, duration_hours = 1/2, session_type = ''revision''\<rparr>],
          2, 11)"
    by code_simp
  have v: "min (total_topics (init_subject bio)) 5 = 3"
    "min3 (3/2) 2 (min (1/2) (2 / 3)) = (1/2 :: rat)"
    "charged 2 (1/4) [1/2, 1/2, 1/2] = 2"
    by code_simp+
  from revision_allocator_selection[OF h, of 739190 739194 9 2 "3/2" "1/4" "[]"] h c e v
  show ?thesis by blast
qed

section \<open>The passes of a day\<close>

lemma map_list_update_same:
  "f s' = f (xs ! i) \<Longrightarrow> map f (xs[i := s']) = map f xs"
  by (cases "i < length xs") (simp_all add: map_update list_update_same_conv list_update_beyond)

lemma study_topic_fields [simp]:
  "t_name (study_topic dur t) = t_name t"
  "hours_needed (study_topic dur t) = hours_needed t"
  "remaining_hours (study_topic dur t) = remaining_hours t - dur"
  "completed (study_topic dur t) = (completed t \<or> remaining_hours t - dur \<le> 1/100)"
  by (simp_all add: study_topic_def)

lemma study_step_cases:
  assumes "study_step today p d tgt i st = Inr st'"
  obtains
    (idle) s' where
      "st' = st\<lparr>sdata := (sdata st)[i := s']\<rparr>"
      "s' = sdata st ! i \<or>
       (\<not> subject_completed (sdata st ! i) \<and>
        (\<exists>c. s' = (sdata st ! i)\<lparr>current_topic_index := c, subject_completed := True\<rparr>) \<and>
        (\<forall>j. current_topic_index (sdata st ! i) \<le> j \<and> j < length (topics (sdata st ! i))
              \<longrightarrow> topic_done (topics (sdata st ! i) ! j)))"
  | (study) j t dur g where
      "\<not> subject_completed (sdata st ! i)"
      "current_topic_index (sdata st ! i) \<le> j"
      "j < length (topics (sdata st ! i))" "t = topics (sdata st ! i) ! j"
      "\<not> topic_done t" "dur = min3 (session_duration p) tgt (remaining_hours t)"
      "g = break_after (1/100) tgt dur (break_duration p)"
      "st' = st\<lparr>sdata := (sdata st)[i := (sdata st ! i)
                  \<lparr>topics := (topics (sdata st ! i))[j := study_topic dur t],
                   current_topic_index := (if remaining_hours t - dur \<le> 1/100 then j + 1 else j)\<rparr>],
               hours_left := hours_left st - (dur + g),
               current_time := wrap24 (datetime_combine today (current_time st) + dur + g),
               day_sessions := day_sessions st @
                  [regular_session today (s_name (sdata st ! i)) t d (current_time st) dur]\<rparr>"
      "\<forall>k. current_topic_index (sdata st ! i) \<le> k \<and> k < j
            \<longrightarrow> topic_done (topics (sdata st ! i) ! k)"
proof -
  from assms obtain s' ds' used ct' where
    r: "add_regular_session today (sdata st ! i) d (current_time st) tgt
          (session_duration p) (break_duration p) (day_sessions st) = Inr (s', ds', used, ct')"
    and st': "st' = st\<lparr>sdata := (sdata st)[i := s'], hours_left := hours_left st - used,
                      current_time := ct', day_sessions := ds'\<rparr>"
    by (auto simp: study_step_def split: sum.splits prod.splits)
  from r show ?thesis
  proof (cases rule: add_regular_session_cases)
    case skip
    then have "st' = st\<lparr>sdata := (sdata st)[i := sdata st ! i]\<rparr>" using st' by simp
    then show ?thesis by (rule idle) simp
  next
    case (fin c)
    then have eq: "st' = st\<lparr>sdata := (sdata st)[i := (sdata st ! i)
                 \<lparr>current_topic_index := c, subject_completed := True\<rparr>]\<rparr>"
      using st' by simp
    show ?thesis by (rule idle[OF eq]) (use fin(1,3) in auto)
  next
    case (study j t dur g)
    show ?thesis
      by (rule that(2)[OF study(1-3) study(4) study(5) study(7) study(8) _ study(6)])
         (use st' study(9) in simp)
  qed
qed

lemma revise_step_cases:
  assumes "revise_step today p d tgt i st = Inr st'"
  obtains
    (idle) "st' = st\<lparr>sdata := (sdata st)[i := (sdata st ! i)\<lparr>revision_completed := True\<rparr>]\<rparr>"
  | (run) revised remaining used cst ds' where
      "\<not> revision_completed (sdata st ! i)" "\<not> subject_completed (sdata st ! i)"
      "0 < revision_quota (sdata st ! i)"
      "revision_loop today (s_name (sdata st ! i)) d (session_duration p) (break_duration p)
         (revision_quota (sdata st ! i)) (time_per_topic (sdata st ! i) tgt)
         (topics (sdata st ! i)) (0, tgt, 0, current_time st, day_sessions st)
         = Inr (revised, remaining, used, cst, ds')"
      "st' = st\<lparr>sdata := (sdata st)[i := (sdata st ! i)\<lparr>revision_completed := True\<rparr>],
               hours_left := hours_left st - used, current_time := cst,
               day_sessions := ds'\<rparr>"
proof -
  from assms obtain s' ds' used ct' where
    r: "add_revision_session today (sdata st ! i) d (current_time st) tgt
          (session_duration p) (break_duration p) (day_sessions st) = Inr (s', ds', used, ct')"
    and st': "st' = st\<lparr>sdata := (sdata st)[i := s'\<lparr>revision_completed := True\<rparr>],
                      hours_left := hours_left st - used,
                      current_time := ct', day_sessions := ds'\<rparr>"
    by (auto simp: revise_step_def split: sum.splits prod.splits)
  from r show ?thesis
  proof (cases rule: add_revision_session_cases)
    case skip
    then have "st' = st\<lparr>sdata := (sdata st)[i := (sdata st ! i)\<lparr>revision_completed := True\<rparr>]\<rparr>"
      using st' by simp
    then show ?thesis by (rule idle)
  next
    case (run revised remaining used1 cst ds1)
    show ?thesis
      by (rule that(2)[OF run(1-4)]) (use st' run(5) in auto)
  qed
qed

lemma study_step_based:
  assumes "study_step today p d tgt i st = Inr st'" "based sd st"
  shows "based sd st'" "covered st' = covered st"
proof -
  have "based sd st' \<and> covered st' = covered st"
    using assms(1)
  proof (cases rule: study_step_cases)
    case (idle s')
    from idle(2) have "fixed_part s' = fixed_part (sdata st ! i)"
      by (auto simp: fixed_part_def)
    with assms(2) idle(1) show ?thesis by (simp add: based_def map_list_update_same)
  next
    case (study j t dur g)
    have "fixed_part ((sdata st ! i)
                  \<lparr>topics := (topics (sdata st ! i))[j := study_topic dur t],
                   current_topic_index := (if remaining_hours t - dur \<le> 1/100 then j + 1 else j)\<rparr>)
          = fixed_part (sdata st ! i)"
      using study(3,4) by (simp add: fixed_part_def map_update list_update_same_conv)
    with assms(2) study(8) show ?thesis by (simp add: based_def map_list_update_same)
  qed
  then show "based sd st'" "covered st' = covered st" by simp_all
qed

lemma revise_step_based:
  assumes "revise_step today p d tgt i st = Inr st'" "based sd st"
  shows "based sd st'" "covered st' = covered st"
proof -
  have f: "fixed_part ((sdata st ! i)\<lparr>revision_completed := True\<rparr>) = fixed_part (sdata st ! i)"
    by (simp add: fixed_part_def)
  have "based sd st' \<and> covered st' = covered st"
    using assms(1)
  proof (cases rule: revise_step_cases)
    case idle
    with assms(2) f show ?thesis by (simp add: based_def map_list_update_same)
  next
    case (run revised remaining used cst ds')
    with assms(2) f show ?thesis by (simp add: based_def map_list_update_same)
  qed
  then show "based sd st'" "covered st' = covered st" by simp_all
qed

lemma mark_covered_fixed [simp]:
  "sdata (mark_covered i st) = sdata st"
  "hours_left (mark_covered i st) = hours_left st"
  "current_time (mark_covered i st) = current_time st"
  "day_sessions (mark_covered i st) = day_sessions st"
  by (simp_all add: mark_covered_def)

lemma mark_covered_based [simp]: "based sd (mark_covered i st) = based sd st"
  by (simp add: based_def)

lemma based_fixed_part:
  assumes "based sd st" "i < length sd"
  shows "fixed_part (sdata st ! i) = fixed_part (sd ! i)"
proof -
  have len: "i < length (sdata st)"
    using assms by (simp add: based_def)
  have "fixed_part (sdata st ! i) = map fixed_part (sdata st) ! i"
    using len by simp
  also have "\<dots> = map fixed_part sd ! i"
    using assms(1) by (simp only: based_def)
  also have "\<dots> = fixed_part (sd ! i)"
    using assms(2) by simp
  finally show ?thesis .
qed

lemma based_exam_date:
  "based sd st \<Longrightarrow> i < length sd \<Longrightarrow> exam_date (sdata st ! i) = exam_date (sd ! i)"
  using based_fixed_part[of sd st i] by (simp add: fixed_part_def)

lemma based_s_name:
  "based sd st \<Longrightarrow> i < length sd \<Longrightarrow> s_name (sdata st ! i) = s_name (sd ! i)"
  using based_fixed_part[of sd st i] by (simp add: fixed_part_def)

lemma select_set: "i \<in> set (select P sd) \<longleftrightarrow> i < length sd \<and> P (sd ! i)"
  by (auto simp: select_def)

lemma day_invI:
  assumes "\<And>i tgt st st'. I st \<Longrightarrow> based sd st \<Longrightarrow> i < length sd \<Longrightarrow> 1/2 \<le> tgt \<Longrightarrow>
             tgt \<le> hours_left st \<Longrightarrow> study_step today p d tgt i st = Inr st' \<Longrightarrow> I st'"
    and "\<And>i tgt st st' e. I st \<Longrightarrow> based sd st \<Longrightarrow> i < length sd \<Longrightarrow> 1/2 \<le> tgt \<Longrightarrow>
             tgt \<le> hours_left st \<Longrightarrow> exam_date (sdata st ! i) = Some e \<Longrightarrow>
             d = e - revision_days_before p \<Longrightarrow> \<not> revision_completed (sdata st ! i) \<Longrightarrow>
             revise_step today p d tgt i st = Inr st' \<Longrightarrow> I st'"
    and "\<And>i st. I st \<Longrightarrow> based sd st \<Longrightarrow> i < length sd \<Longrightarrow> I (mark_covered i st)"
  shows "day_inv today p d sd I"
  unfolding day_inv_def using assms by blast

lemma run_pass_rule:
  assumes "run_pass step js st = Inr st'" "I st"
    and "\<And>i st st1. i \<in> set js \<Longrightarrow> I st \<Longrightarrow> 1/2 \<le> hours_left st \<Longrightarrow>
           step i st = Inr st1 \<Longrightarrow> I st1"
  shows "I st'"
  using assms
proof (induction js arbitrary: st)
  case Nil
  then show ?case by simp
next
  case (Cons i js)
  show ?case
  proof (cases "hours_left st < 1/2")
    case True
    with Cons.prems(1,2) show ?thesis by simp
  next
    case False
    with Cons.prems(1) obtain st1 where
      st1: "step i st = Inr st1" "run_pass step js st1 = Inr st'"
      by (auto split: sum.splits)
    have "I st1" using Cons.prems(3)[of i st st1] Cons.prems(2) False st1(1) by simp
    show ?thesis
      by (rule Cons.IH[OF st1(2) \<open>I st1\<close>]) (use Cons.prems(3) in auto)
  qed
qed

lemma run_pass_total:
  assumes "I st"
    and "\<And>i st. i \<in> set js \<Longrightarrow> I st \<Longrightarrow> 1/2 \<le> hours_left st \<Longrightarrow>
           \<exists>st'. step i st = Inr st' \<and> I st'"
  shows "\<exists>st'. run_pass step js st = Inr st' \<and> I st'"
  using assms
proof (induction js arbitrary: st)
  case Nil
  then show ?case by simp
next
  case (Cons i js)
  show ?case
  proof (cases "hours_left st < 1/2")
    case True
    with Cons.prems(1) show ?thesis by simp
  next
    case False
    with Cons.prems(2)[of i st] Cons.prems(1) obtain st1 where
      st1: "step i st = Inr st1" "I st1" by auto
    have "\<exists>st'. run_pass step js st1 = Inr st' \<and> I st'"
      by (rule Cons.IH[OF st1(2)]) (use Cons.prems(2) in auto)
    with st1(1) False show ?thesis by simp
  qed
qed

lemma needs_revision_today_Inr:
  "needs_revision_today p d s e = Inr due \<Longrightarrow>
   due = (d = e - revision_days_before p \<and> \<not> revision_completed s)"
  by (auto simp: needs_revision_today_def split: sum.splits dest: date_add_Inr)

lemma revision_due_Inr:
  "revision_due p d s = Inr True \<Longrightarrow>
   \<exists>e. exam_date s = Some e \<and> d = e - revision_days_before p \<and> \<not> revision_completed s"
  by (auto simp: revision_due_def split: option.splits dest: needs_revision_today_Inr)

lemma day_step_rule:
  fixes I :: "day_state \<Rightarrow> bool"
  assumes inv: "day_inv today p d sd I"
    and st: "I st" "based sd st" and i: "i < length sd" and hl: "1/2 \<le> hours_left st"
  shows "urgent_step today p d i st = Inr st' \<Longrightarrow> I st' \<and> based sd st'"
    and "high_step today p d i st = Inr st' \<Longrightarrow> I st' \<and> based sd st'"
    and "rest_step today p d i st = Inr st' \<Longrightarrow> I st' \<and> based sd st'"
proof -
  have study: "\<And>i tgt st st'. I st \<Longrightarrow> based sd st \<Longrightarrow> i < length sd \<Longrightarrow> 1/2 \<le> tgt \<Longrightarrow>
             tgt \<le> hours_left st \<Longrightarrow> study_step today p d tgt i st = Inr st' \<Longrightarrow> I st'"
    using inv unfolding day_inv_def by blast
  have revise: "\<And>i tgt st st' e. I st \<Longrightarrow> based sd st \<Longrightarrow> i < length sd \<Longrightarrow> 1/2 \<le> tgt \<Longrightarrow>
             tgt \<le> hours_left st \<Longrightarrow> exam_date (sdata st ! i) = Some e \<Longrightarrow>
             d = e - revision_days_before p \<Longrightarrow> \<not> revision_completed (sdata st ! i) \<Longrightarrow>
             revise_step today p d tgt i st = Inr st' \<Longrightarrow> I st'"
    using inv unfolding day_inv_def by blast
  have cover: "\<And>i st. I st \<Longrightarrow> based sd st \<Longrightarrow> i < length sd \<Longrightarrow> I (mark_covered i st)"
    using inv unfolding day_inv_def by blast
  have S: "I st1 \<and> based sd st1"
    if "study_step today p d tgt i st = Inr st1" "1/2 \<le> tgt" "tgt \<le> hours_left st" for tgt st1
    using study[OF st i that(2,3,1)] study_step_based(1)[OF that(1) st(2)] by simp
  have R: "I st1 \<and> based sd st1"
    if "revise_step today p d tgt i st = Inr st1" "1/2 \<le> tgt" "tgt \<le> hours_left st"
       "exam_date (sdata st ! i) = Some e"
       "d = e - revision_days_before p \<and> \<not> revision_completed (sdata st ! i)" for tgt e st1
    using revise[OF st i that(2,3,4) _ _ that(1)] that(5)
          revise_step_based(1)[OF that(1) st(2)] by simp
  have C: "I (mark_covered i st1) \<and> based sd (mark_covered i st1)"
    if "I st1 \<and> based sd st1" for st1
    using cover[OF _ _ i, of st1] that by simp
  have t2: "1/2 \<le> min 2 (hours_left st)" "min 2 (hours_left st) \<le> hours_left st"
    and t1: "1/2 \<le> min 1 (hours_left st)" "min 1 (hours_left st) \<le> hours_left st"
    using hl by simp_all
  show "I st' \<and> based sd st'" if u: "urgent_step today p d i st = Inr st'"
  proof -
    from u obtain e due st1 where e: "exam_date (sdata st ! i) = Some e"
      and due: "needs_revision_today p d (sdata st ! i) e = Inr due"
      and st1: "(if due then revise_step today p d (min 2 (hours_left st)) i st
                 else study_step today p d (min 2 (hours_left st)) i st) = Inr st1"
      and st': "st' = (if importance (sdata st1 ! i) = High then mark_covered i st1 else st1)"
      by (auto simp: urgent_step_def Let_def split: option.splits sum.splits)
    have "I st1 \<and> based sd st1"
    proof (cases due)
      case True
      with st1 have "revise_step today p d (min 2 (hours_left st)) i st = Inr st1" by simp
      from R[OF this t2 e] needs_revision_today_Inr[OF due] True show ?thesis by simp
    next
      case False
      with st1 have "study_step today p d (min 2 (hours_left st)) i st = Inr st1" by simp
      from S[OF this t2] show ?thesis .
    qed
    with C[OF this] st' show ?thesis by simp
  qed
  show "I st' \<and> based sd st'" if h: "high_step today p d i st = Inr st'"
  proof -
    from h obtain due where due: "revision_due p d (sdata st ! i) = Inr due"
      by (auto simp: high_step_def Let_def split: sum.splits)
    show ?thesis
    proof (cases due)
      case True
      with h due have r: "revise_step today p d (min 1 (hours_left st)) i st = Inr st'"
        by (simp add: high_step_def Let_def)
      from due True have "revision_due p d (sdata st ! i) = Inr True" by simp
      from revision_due_Inr[OF this] obtain e where
        "exam_date (sdata st ! i) = Some e"
        "d = e - revision_days_before p \<and> \<not> revision_completed (sdata st ! i)" by blast
      from R[OF r t1 this] show ?thesis .
    next
      case False
      with h due obtain st1 where
        s: "study_step today p d (min 1 (hours_left st)) i st = Inr st1"
        and st': "st' = mark_covered i st1"
        by (auto simp: high_step_def Let_def split: sum.splits)
      from C[OF S[OF s t1]] st' show ?thesis by simp
    qed
  qed
  show "I st' \<and> based sd st'" if h: "rest_step today p d i st = Inr st'"
  proof -
    from h obtain due where due: "revision_due p d (sdata st ! i) = Inr due"
      by (auto simp: rest_step_def Let_def split: sum.splits)
    show ?thesis
    proof (cases due)
      case True
      with h due have r: "revise_step today p d (hours_left st) i st = Inr st'"
        by (simp add: rest_step_def Let_def)
      from due True have "revision_due p d (sdata st ! i) = Inr True" by simp
      from revision_due_Inr[OF this] obtain e where
        "exam_date (sdata st ! i) = Some e"
        "d = e - revision_days_before p \<and> \<not> revision_completed (sdata st ! i)" by blast
      from R[OF r hl order_refl this] show ?thesis .
    next
      case False
      with h due have s: "study_step today p d (hours_left st) i st = Inr st'"
        by (simp add: rest_step_def Let_def)
      from S[OF s hl order_refl] show ?thesis .
    qed
  qed
qed

lemma day_start_based [simp]: "based sd (day_start p d sd)"
  by (simp add: based_def day_start_def)

lemma day_passes_prop:
  fixes I :: "day_state \<Rightarrow> bool"
  assumes inv: "day_inv today p d sd I"
    and init: "I (day_start p d sd)"
    and run: "day_passes today p d sd = Inr st"
  shows "I st \<and> based sd st"
proof -
  define K where "K = (\<lambda>st. I st \<and> based sd st)"
  note steps = day_step_rule[OF inv]
  have K0: "K (day_start p d sd)" using init by (simp add: K_def)
  from run obtain st1 st2 st3 where
    r1: "run_pass (urgent_step today p d) (select (is_urgent d) sd) (day_start p d sd) = Inr st1"
    and r2: "run_pass (high_step today p d) (select (is_high (covered st1)) (sdata st1)) st1 = Inr st2"
    and r3: "run_pass (rest_step today p d) (select (is_tier Medium) (sdata st2)) st2 = Inr st3"
    and r4: "run_pass (rest_step today p d) (select (is_tier Low) (sdata st3)) st3 = Inr st"
    by (auto simp: day_passes_def split: sum.splits)
  have K1: "K st1"
  proof (rule run_pass_rule[of _ _ _ _ K, OF r1 K0])
    fix i st st' assume a: "i \<in> set (select (is_urgent d) sd)" "K st" "1/2 \<le> hours_left st"
      "urgent_step today p d i st = Inr st'"
    then have "i < length sd" by (auto simp: select_set)
    with steps(1)[of st i st'] a(2,3,4) show "K st'" by (simp add: K_def)
  qed
  have K2: "K st2"
  proof (rule run_pass_rule[of _ _ _ _ K, OF r2 K1])
    fix i st st' assume a: "i \<in> set (select (is_high (covered st1)) (sdata st1))" "K st"
      "1/2 \<le> hours_left st" "high_step today p d i st = Inr st'"
    then have "i < length sd" using K1 by (simp add: select_set K_def based_def)
    with steps(2)[of st i st'] a(2,3,4) show "K st'" by (simp add: K_def)
  qed
  have K3: "K st3"
  proof (rule run_pass_rule[of _ _ _ _ K, OF r3 K2])
    fix i st st' assume a: "i \<in> set (select (is_tier Medium) (sdata st2))" "K st"
      "1/2 \<le> hours_left st" "rest_step today p d i st = Inr st'"
    then have "i < length sd" using K2 by (simp add: select_set K_def based_def)
    with steps(3)[of st i st'] a(2,3,4) show "K st'" by (simp add: K_def)
  qed
  have "K st"
  proof (rule run_pass_rule[of _ _ _ _ K, OF r4 K3])
    fix i st st' assume a: "i \<in> set (select (is_tier Low) (sdata st3))" "K st"
      "1/2 \<le> hours_left st" "rest_step today p d i st = Inr st'"
    then have "i < length sd" using K3 by (simp add: select_set K_def based_def)
    with steps(3)[of st i st'] a(2,3,4) show "K st'" by (simp add: K_def)
  qed
  then show ?thesis by (simp add: K_def)
qed

section \<open>Calls that return\<close>

lemma revision_loop_clock:
  "revision_loop today nm d maxd brk quota tpt ts (revised, remaining, used, cst, ds)
     = Inr (revised', remaining', used', cst', ds') \<Longrightarrow> time_of_day cst \<Longrightarrow> time_of_day cst'"
proof (induction ts arbitrary: revised remaining used cst ds)
  case Nil
  then show ?case by simp
next
  case (Cons t ts)
  define dur where "dur = min3 maxd remaining tpt"
  show ?case
  proof (cases "revised < quota \<and> remaining > 1/10")
    case False
    from Cons.prems show ?thesis unfolding revision_loop_stop[OF False] by simp
  next
    case go: True
    show ?thesis
    proof (cases "dur < 1/10")
      case True
      then have sk: "min3 maxd remaining tpt < 1/10" by (simp add: dur_def)
      from Cons.prems show ?thesis unfolding revision_loop_skip[OF sk] by simp
    next
      case False
      note step = revision_loop_step[of revised quota remaining dur maxd tpt today nm d brk t ts
                     used cst ds, OF go[THEN conjunct1] go[THEN conjunct2] dur_def False]
      from Cons.prems(1) show ?thesis
        unfolding step
        by (auto split: sum.splits if_splits dest: Cons.IH[OF _ wrap24_range])
    qed
  qed
qed

lemma clock_day:
  "day_inv today p d sd (\<lambda>st. time_of_day (current_time st))"
proof (rule day_invI)
  fix i and tgt :: rat and st st' :: day_state
  assume I: "time_of_day (current_time st)"
    and r: "study_step today p d tgt i st = Inr st'"
  from r show "time_of_day (current_time st')"
  proof (cases rule: study_step_cases)
    case (idle s')
    with I show ?thesis by simp
  next
    case (study j t dur g)
    then show ?thesis by (simp add: wrap24_range)
  qed
next
  fix i and tgt :: rat and st st' :: day_state and e :: date
  assume I: "time_of_day (current_time st)"
    and r: "revise_step today p d tgt i st = Inr st'"
  from r show "time_of_day (current_time st')"
  proof (cases rule: revise_step_cases)
    case idle
    with I show ?thesis by simp
  next
    case (run revised remaining used cst ds')
    from revision_loop_clock[OF run(4) I] run(5) show ?thesis by simp
  qed
next
  fix i and st :: day_state
  assume "time_of_day (current_time st)"
  then show "time_of_day (current_time (mark_covered i st))" by simp
qed

lemma study_step_total:
  assumes "clock_in_range today (session_duration p) (break_duration p)"
    "time_of_day (current_time st)" "- 12 \<le> tgt"
  shows "\<exists>st'. study_step today p d tgt i st = Inr st'"
  using add_regular_session_total[OF assms, of "sdata st ! i" d "day_sessions st"]
  by (auto simp: study_step_def)

lemma revise_step_total:
  assumes "clock_in_range today (session_duration p) (break_duration p)"
    "time_of_day (current_time st)"
  shows "\<exists>st'. revise_step today p d tgt i st = Inr st'"
  using add_revision_session_total[OF assms, of "sdata st ! i" d tgt "day_sessions st"]
  by (auto simp: revise_step_def)

lemma needs_revision_today_total:
  assumes "\<bar>revision_days_before p\<bar> \<le> 999999999" "exam_date_ok p (Some e)"
  shows "\<exists>due. needs_revision_today p d s e = Inr due"
  using assms by (simp add: needs_revision_today_def date_add_def exam_date_ok_def)

lemma exam_dates_ok_nth:
  assumes "exam_dates_ok p sd" "i < length sd"
  shows "exam_date_ok p (exam_date (sd ! i))"
  using assms by (simp add: exam_dates_ok_def list_all_length)

lemma revision_due_total:
  assumes "exam_dates_ok p sd" "based sd st" "i < length sd"
  shows "\<exists>due. revision_due p d (sdata st ! i) = Inr due"
proof (cases "exam_date (sdata st ! i)")
  case None
  then have "revision_due p d (sdata st ! i) = Inr False" by (simp add: revision_due_def)
  then show ?thesis by blast
next
  case (Some e)
  with exam_dates_ok_nth[OF assms(1,3)] based_exam_date[OF assms(2,3)]
  have "exam_date_ok p (Some e)" by simp
  from needs_revision_today_total[OF _ this, of d "sdata st ! i"] assms(1) Some
  show ?thesis by (simp add: revision_due_def exam_dates_ok_def)
qed

lemma day_step_total:
  assumes clock: "clock_in_range today (session_duration p) (break_duration p)"
    and dates: "exam_dates_ok p sd"
    and st: "time_of_day (current_time st)" "based sd st"
    and i: "i < length sd" and hl: "1/2 \<le> hours_left st"
  shows "exam_date (sd ! i) \<noteq> None \<Longrightarrow> \<exists>st'. urgent_step today p d i st = Inr st'"
    and "\<exists>st'. high_step today p d i st = Inr st'"
    and "\<exists>st'. rest_step today p d i st = Inr st'"
proof -
  have t2: "- 12 \<le> min 2 (hours_left st)" and t1: "- 12 \<le> min 1 (hours_left st)"
    and t0: "- 12 \<le> hours_left st"
    using hl by simp_all
  note S = study_step_total[OF clock st(1), of _ d i]
  note R = revise_step_total[OF clock st(1), of d _ i]
  from revision_due_total[OF dates st(2) i, of d] obtain due where
    due: "revision_due p d (sdata st ! i) = Inr due" by blast
  show "\<exists>st'. urgent_step today p d i st = Inr st'" if "exam_date (sd ! i) \<noteq> None"
  proof -
    from that based_exam_date[OF st(2) i] obtain e where e: "exam_date (sdata st ! i) = Some e"
      by auto
    with due have n: "needs_revision_today p d (sdata st ! i) e = Inr due"
      by (simp add: revision_due_def)
    from S[OF t2] R[of "min 2 (hours_left st)"] e n show ?thesis
      by (cases due) (auto simp: urgent_step_def Let_def)
  qed
  from S[OF t1] R[of "min 1 (hours_left st)"] due
  show "\<exists>st'. high_step today p d i st = Inr st'"
    by (cases due) (auto simp: high_step_def Let_def)
  from S[OF t0] R[of "hours_left st"] due
  show "\<exists>st'. rest_step today p d i st = Inr st'"
    by (cases due) (auto simp: rest_step_def Let_def)
qed

lemma day_passes_total:
  assumes clock: "clock_in_range today (session_duration p) (break_duration p)"
    and dates: "exam_dates_ok p sd"
  shows "\<exists>st. day_passes today p d sd = Inr st"
proof -
  define K where "K = (\<lambda>st. time_of_day (current_time st) \<and> based sd st)"
  note steps = day_step_rule[OF clock_day, of _ sd _ today p d]
  note total = day_step_total[OF clock dates, of _ _ d]
  have K0: "K (day_start p d sd)"
    by (simp add: K_def) (simp add: day_start_def time_of_day_def)
  have "\<exists>st1. run_pass (urgent_step today p d) (select (is_urgent d) sd) (day_start p d sd)
           = Inr st1 \<and> K st1"
  proof (rule run_pass_total[of K, OF K0])
    fix i st assume a: "i \<in> set (select (is_urgent d) sd)" "K st" "1/2 \<le> hours_left st"
    then have i: "i < length sd" "exam_date (sd ! i) \<noteq> None"
      by (auto simp: select_set is_urgent_def split: option.splits)
    from total(1)[of st i] a(2,3) i obtain st' where s: "urgent_step today p d i st = Inr st'"
      by (auto simp: K_def)
    from steps(1)[of st i st'] a(2,3) i(1) s have "K st'" by (simp add: K_def)
    with s show "\<exists>st'. urgent_step today p d i st = Inr st' \<and> K st'" by blast
  qed
  then obtain st1 where st1:
    "run_pass (urgent_step today p d) (select (is_urgent d) sd) (day_start p d sd) = Inr st1"
    "K st1" by blast
  have "\<exists>st2. run_pass (high_step today p d) (select (is_high (covered st1)) (sdata st1)) st1
           = Inr st2 \<and> K st2"
  proof (rule run_pass_total[of K, OF st1(2)])
    fix i st assume a: "i \<in> set (select (is_high (covered st1)) (sdata st1))" "K st"
      "1/2 \<le> hours_left st"
    then have i: "i < length sd" using st1(2) by (simp add: select_set K_def based_def)
    from total(2)[of st i] a(2,3) i obtain st' where s: "high_step today p d i st = Inr st'"
      by (auto simp: K_def)
    from steps(2)[of st i st'] a(2,3) i s have "K st'" by (simp add: K_def)
    with s show "\<exists>st'. high_step today p d i st = Inr st' \<and> K st'" by blast
  qed
  then obtain st2 where st2:
    "run_pass (high_step today p d) (select (is_high (covered st1)) (sdata st1)) st1 = Inr st2"
    "K st2" by blast
  have "\<exists>st3. run_pass (rest_step today p d) (select (is_tier Medium) (sdata st2)) st2
           = Inr st3 \<and> K st3"
  proof (rule run_pass_total[of K, OF st2(2)])
    fix i st assume a: "i \<in> set (select (is_tier Medium) (sdata st2))" "K st"
      "1/2 \<le> hours_left st"
    then have i: "i < length sd" using st2(2) by (simp add: select_set K_def based_def)
    from total(3)[of st i] a(2,3) i obtain st' where s: "rest_step today p d i st = Inr st'"
      by (auto simp: K_def)
    from steps(3)[of st i st'] a(2,3) i s have "K st'" by (simp add: K_def)
    with s show "\<exists>st'. rest_step today p d i st = Inr st' \<and> K st'" by blast
  qed
  then obtain st3 where st3:
    "run_pass (rest_step today p d) (select (is_tier Medium) (sdata st2)) st2 = Inr st3"
    "K st3" by blast
  have "\<exists>st4. run_pass (rest_step today p d) (select (is_tier Low) (sdata st3)) st3
           = Inr st4 \<and> K st4"
  proof (rule run_pass_total[of K, OF st3(2)])
    fix i st assume a: "i \<in> set (select (is_tier Low) (sdata st3))" "K st"
      "1/2 \<le> hours_left st"
    then have i: "i < length sd" using st3(2) by (simp add: select_set K_def based_def)
    from total(3)[of st i] a(2,3) i obtain st' where s: "rest_step today p d i st = Inr st'"
      by (auto simp: K_def)
    from steps(3)[of st i st'] a(2,3) i s have "K st'" by (simp add: K_def)
    with s show "\<exists>st'. rest_step today p d i st = Inr st' \<and> K st'" by blast
  qed
  then obtain st4 where st4:
    "run_pass (rest_step today p d) (select (is_tier Low) (sdata st3)) st3 = Inr st4" by blast
  have "day_passes today p d sd = Inr st4"
    using st1(1) st2(1) st3(1) st4 by (simp add: day_passes_def)
  then show ?thesis by blast
qed

section \<open>The loops over the days\<close>

lemma available_loop_eq:
  "available_loop p e cur acc =
     (if cur \<le> e \<and> (cur < 0 \<or> max_ordinal \<le> e) then Inl OverflowError
      else Inr (acc + available_between p cur e))"
proof (induction p e cur acc rule: available_loop.induct)
  case (1 p e cur acc)
  show ?case
  proof (cases "cur \<le> e")
    case False
    then show ?thesis by (subst available_loop.simps) (simp add: available_between_def)
  next
    case True
    then have u: "[cur..e] = cur # [cur + 1..e]" by (simp add: upto_rec1)
    show ?thesis
    proof (cases "0 \<le> cur \<and> cur < max_ordinal")
      case False
      then have "date_add cur 1 = Inl OverflowError"
        by (auto simp: date_add_def max_ordinal_def)
      with True False show ?thesis by (subst available_loop.simps) auto
    next
      case ok: True
      then have d: "date_add cur 1 = Inr (cur + 1)"
        by (auto simp: date_add_def max_ordinal_def)
      show ?thesis
      proof (cases "is_break_day p cur")
        case b: True
        have "available_loop p e cur acc = available_loop p e (cur + 1) acc"
          using True b d by (subst available_loop.simps) simp
        with "1.IH"(1)[OF True b d] show ?thesis
          unfolding available_between_def u using b ok True by auto
      next
        case b: False
        have "available_loop p e cur acc = available_loop p e (cur + 1)
                (acc + (if is_weekend cur then weekend_hours p else weekday_hours p))"
          using True b d by (subst available_loop.simps) simp
        with "1.IH"(2)[OF True b d] show ?thesis
          unfolding available_between_def u using b ok True by auto
      qed
    qed
  qed
qed

lemma update_completed_eq:
  "update_completed cur sd un =
     (map (\<lambda>s. if newly_completed cur s then s\<lparr>subject_completed := True\<rparr> else s) sd,
      un @ concat (map leftover (filter (newly_completed cur) sd)))"
  by (induction sd arbitrary: un) (auto simp: newly_completed_def)

lemma update_completed_exam_dates:
  "map exam_date (fst (update_completed cur sd un)) = map exam_date sd"
  by (simp add: update_completed_eq)

lemma based_exam_dates:
  assumes "based sd st"
  shows "map exam_date (sdata st) = map exam_date sd"
proof -
  have "map exam_date xs = map (\<lambda>x. fst (snd x)) (map fixed_part xs)" for xs
    by (simp add: fixed_part_def)
  with assms show ?thesis by (simp only: based_def)
qed

lemma schedule_loop_rule:
  assumes "schedule_loop today p e cur sd dys un = Inr (dys', un')"
    and "J cur sd dys un" and "loop_inv today p e J"
  shows "\<exists>cur' sd'. J cur' sd' dys' un' \<and> e < cur'"
  using assms
proof (induction today p e cur sd dys un rule: schedule_loop.induct)
  case (1 today p e cur sd dys un)
  show ?case
  proof (cases "cur \<le> e")
    case False
    with "1.prems"(1) have "dys' = dys" "un' = un"
      by (subst (asm) schedule_loop.simps, simp)+
    with False "1.prems"(2) show ?thesis by auto
  next
    case le: True
    show ?thesis
    proof (cases "is_break_day p cur")
      case True
      from "1.prems"(1) le True obtain nxt where
        d: "date_add cur 1 = Inr nxt"
        and eq: "schedule_loop today p e nxt sd dys un = Inr (dys', un')"
        by (subst (asm) schedule_loop.simps) (auto split: sum.splits)
      have nxt: "nxt = cur + 1" using date_add_Inr[OF d] .
      have "J nxt sd dys un"
        using "1.prems"(2,3) le True unfolding loop_inv_def nxt by blast
      from "1.IH"(1)[OF le True d eq this "1.prems"(3)] show ?thesis .
    next
      case False
      from "1.prems"(1) le False obtain st nxt where
        st: "day_passes today p cur sd = Inr st"
        and d: "date_add cur 1 = Inr nxt"
        and eq: "schedule_loop today p e nxt (fst (update_completed nxt (sdata st) un))
                   (if day_sessions st \<noteq> []
                    then dys @ [\<lparr>day_date = cur, sessions = day_sessions st\<rparr>] else dys)
                   (snd (update_completed nxt (sdata st) un)) = Inr (dys', un')"
        by (subst (asm) schedule_loop.simps) (auto split: sum.splits)
      have nxt: "nxt = cur + 1" using date_add_Inr[OF d] .
      have b: "based sd st"
        using day_passes_prop[of today p cur sd "\<lambda>_. True" st] st by (simp add: day_inv_def)
      have "J nxt (fst (update_completed nxt (sdata st) un))
                   (if day_sessions st \<noteq> []
                    then dys @ [\<lparr>day_date = cur, sessions = day_sessions st\<rparr>] else dys)
                   (snd (update_completed nxt (sdata st) un))"
        using "1.prems"(2,3) le False st b unfolding loop_inv_def nxt by blast
      from "1.IH"(2)[OF le False st d eq this "1.prems"(3)] show ?thesis .
    qed
  qed
qed

lemma schedule_loop_total:
  assumes "clock_in_range today (session_duration p) (break_duration p)"
    and "exam_dates_ok p sd" and "0 \<le> cur" and "e < max_ordinal"
  shows "\<exists>r. schedule_loop today p e cur sd dys un = Inr r"
  using assms
proof (induction today p e cur sd dys un rule: schedule_loop.induct)
  case (1 today p e cur sd dys un)
  show ?case
  proof (cases "cur \<le> e")
    case False
    then show ?thesis by (subst schedule_loop.simps) simp
  next
    case le: True
    with "1.prems"(3,4) have d: "date_add cur 1 = Inr (cur + 1)"
      by (simp add: date_add_def max_ordinal_def)
    have nn: "0 \<le> cur + 1" using "1.prems"(3) by simp
    show ?thesis
    proof (cases "is_break_day p cur")
      case True
      from "1.IH"(1)[OF le True d "1.prems"(1,2) nn "1.prems"(4)]
      show ?thesis using le True d by (subst schedule_loop.simps) simp
    next
      case False
      from day_passes_total[OF "1.prems"(1,2), of cur] obtain st where
        st: "day_passes today p cur sd = Inr st" by blast
      have b: "based sd st"
        using day_passes_prop[of today p cur sd "\<lambda>_. True" st] st by (simp add: day_inv_def)
      have ok: "exam_dates_ok p (fst (update_completed (cur + 1) (sdata st) un))"
        using "1.prems"(2) based_exam_dates[OF b]
        by (simp add: exam_dates_ok_def update_completed_exam_dates)
      from "1.IH"(2)[OF le False st d "1.prems"(1) ok nn "1.prems"(4)]
      show ?thesis using le False d st by (subst schedule_loop.simps) simp
    qed
  qed
qed

lemma schedule_loop_empty_range:
  "e < cur \<Longrightarrow> schedule_loop today p e cur sd dys un = Inr (dys, un)"
  by (subst schedule_loop.simps) simp

lemma generate_study_plan_Inr:
  assumes "generate_study_plan today req = Inr r"
  shows "\<exists>dys un avail.
     available_loop (preferences req) (end_date req) (start_date req) 0 = Inr avail \<and>
     schedule_loop today (preferences req) (end_date req) (start_date req)
        (map init_subject (subjects req)) [] [] = Inr (dys, un) \<and>
     r = \<lparr>days = dys,
          total_study_hours = sum_list (map duration_hours (all_sessions dys)),
          subjects_distribution = distribution (all_sessions dys),
          insufficient_time = (avail < total_needed (subjects req) 0),
          total_hours_needed = total_needed (subjects req) 0,
          available_hours = avail,
          unallocated_topics = un\<rparr>"
  using assms
  by (auto simp: generate_study_plan_def generate_rule_based_schedule_def Let_def
           split: sum.splits)

lemma generate_study_plan_total:
  assumes "no_overflow today req"
  shows "\<exists>r. generate_study_plan today req = Inr r"
proof -
  from assms have a: "available_loop (preferences req) (end_date req) (start_date req) 0
      = Inr (0 + available_between (preferences req) (start_date req) (end_date req))"
    by (simp add: available_loop_eq no_overflow_def)
  from assms have "\<exists>r. schedule_loop today (preferences req) (end_date req) (start_date req)
        (map init_subject (subjects req)) [] [] = Inr r"
    by (intro schedule_loop_total) (simp_all add: no_overflow_def)
  then obtain dys un where "schedule_loop today (preferences req) (end_date req) (start_date req)
        (map init_subject (subjects req)) [] [] = Inr (dys, un)" by force
  with a show ?thesis
    by (simp add: generate_study_plan_def generate_rule_based_schedule_def Let_def)
qed

section \<open>Session lengths\<close>

lemma good_length_day:
  assumes "0 < session_duration p"
  shows "day_inv today p d sd (\<lambda>st. \<forall>x \<in> set (day_sessions st). good_length (session_duration p) x)"
proof (rule day_invI)
  fix i and tgt :: rat and st st' :: day_state
  assume I: "\<forall>x \<in> set (day_sessions st). good_length (session_duration p) x"
    and tgt: "1/2 \<le> tgt" and r: "study_step today p d tgt i st = Inr st'"
  from r show "\<forall>x \<in> set (day_sessions st'). good_length (session_duration p) x"
  proof (cases rule: study_step_cases)
    case (idle s')
    with I show ?thesis by simp
  next
    case (study j t dur g)
    from study(5) have "0 < remaining_hours t" by (simp add: topic_done_def)
    with assms tgt have "0 < dur" unfolding study(6) by (intro min3_pos) simp_all
    moreover have "dur \<le> session_duration p" unfolding study(6) by (rule min3_le)
    ultimately show ?thesis using I
      by (auto simp: study(8) good_length_def regular_session_def)
  qed
next
  fix i and tgt :: rat and st st' :: day_state and e :: date
  assume I: "\<forall>x \<in> set (day_sessions st). good_length (session_duration p) x"
    and r: "revise_step today p d tgt i st = Inr st'"
  from r show "\<forall>x \<in> set (day_sessions st'). good_length (session_duration p) x"
  proof (cases rule: revise_step_cases)
    case idle
    with I show ?thesis by auto
  next
    case (run revised remaining used cst ds')
    from revision_loop_sessions[OF run(4)] obtain new where
      "ds' = day_sessions st @ new"
      "\<forall>x \<in> set new. 1/10 \<le> duration_hours x \<and> duration_hours x \<le> session_duration p"
      by auto
    with run(5) I show ?thesis by (auto simp: good_length_def)
  qed
next
  fix i and st :: day_state
  assume "\<forall>x \<in> set (day_sessions st). good_length (session_duration p) x"
  then show "\<forall>x \<in> set (day_sessions (mark_covered i st)). good_length (session_duration p) x"
    by simp
qed

lemma good_length_loop:
  assumes "0 < session_duration p"
  shows "loop_inv today p e (\<lambda>cur sd dys un.
           \<forall>dy \<in> set dys. \<forall>x \<in> set (sessions dy). good_length (session_duration p) x)"
  unfolding loop_inv_def
proof (intro conjI allI impI, goal_cases)
  case (1 cur sd dys un)
  then show ?case by simp
next
  case (2 cur sd dys un st)
  have "(\<forall>x \<in> set (day_sessions st). good_length (session_duration p) x) \<and> based sd st"
    by (rule day_passes_prop[OF good_length_day[OF assms],
                where d=cur and sd=sd and st=st and today=today])
       (use 2 in \<open>simp_all add: day_start_def\<close>)
  with 2 show ?case by auto
qed

text \<open>
  C5 (amended). When \<open>preferences.session_duration\<close> is positive, every session of a
  response of the engine has a duration strictly greater than 0 and at most
  \<open>preferences.session_duration\<close>; and the engine returns a response whenever the date
  and clock arithmetic of the request stays in range.
\<close>

theorem session_lengths:
  assumes "0 < session_duration (preferences req)"
  shows "(\<forall>r. generate_study_plan today req = Inr r \<longrightarrow>
            (\<forall>dy \<in> set (days r). \<forall>x \<in> set (sessions dy).
               0 < duration_hours x \<and> duration_hours x \<le> session_duration (preferences req))) \<and>
         (no_overflow today req \<longrightarrow> (\<exists>r. generate_study_plan today req = Inr r))"
proof (rule conjI)
  let ?J = "\<lambda>(cur::date) (sd::subject_data list) dys (un::unallocated_topic list).
       \<forall>dy \<in> set dys. \<forall>x \<in> set (sessions dy). good_length (session_duration (preferences req)) x"
  show "\<forall>r. generate_study_plan today req = Inr r \<longrightarrow>
            (\<forall>dy \<in> set (days r). \<forall>x \<in> set (sessions dy).
               0 < duration_hours x \<and> duration_hours x \<le> session_duration (preferences req))"
  proof (intro allI impI)
    fix r assume "generate_study_plan today req = Inr r"
    from generate_study_plan_Inr[OF this] obtain dys un where
      g: "schedule_loop today (preferences req) (end_date req) (start_date req)
            (map init_subject (subjects req)) [] [] = Inr (dys, un)"
      and r: "days r = dys"
      by auto
    have J0: "?J (start_date req) (map init_subject (subjects req)) [] []" by simp
    from schedule_loop_rule[where J = ?J, OF g J0 good_length_loop[OF assms]]
    have "\<forall>dy \<in> set dys. \<forall>x \<in> set (sessions dy).
       good_length (session_duration (preferences req)) x"
      by blast
    with r show "\<forall>dy \<in> set (days r). \<forall>x \<in> set (sessions dy).
               0 < duration_hours x \<and> duration_hours x \<le> session_duration (preferences req)"
      by (simp add: good_length_def)
  qed
  show "no_overflow today req \<longrightarrow> (\<exists>r. generate_study_plan today req = Inr r)"
    by (intro impI generate_study_plan_total)
qed

theorem session_lengths_witness:
  "0 < session_duration (preferences plain_request) \<and> no_overflow 739190 plain_request \<and>
   generate_study_plan 739190 plain_request =
     Inr \<lparr>days = [\<lparr>day_date = 739194, sessions =
              [\<lparr>ss_subject = ''Math'', ss_topic = ''A'', ss_date = 739194,
                start_time = 9, end_time = 10, duration_hours = 1,
                session_type = ''regular''\<rparr>]\<rparr>],
          total_study_hours = 1, subjects_distribution = [(''Math'', 1)],
          insufficient_time = False, total_hours_needed = 1,
          available_hours = 6, unallocated_topics = []\<rparr>"
proof -
  have h: "0 < session_duration (preferences plain_request)"
    by (simp add: plain_request_def default_prefs_def)
  have n: "no_overflow 739190 plain_request"
    by code_simp
  have v: "generate_study_plan 739190 plain_request =
     Inr \<lparr>days = [\<lparr>day_date = 739194, sessions =
              [\<lparr>ss_subject = ''Math'', ss_topic = ''A'', ss_date = 739194,
                start_time = 9, end_time = 10, duration_hours = 1,
                session_type = ''regular''\<rparr>]\<rparr>],
          total_study_hours = 1, subjects_distribution = [(''Math'', 1)],
          insufficient_time = False, total_hours_needed = 1,
          available_hours = 6, unallocated_topics = []\<rparr>"
    by code_simp
  from session_lengths[OF h, of 739190] h n v show ?thesis by blast
qed

theorem session_lengths_counterexample:
  "\<not> 0 < session_duration (preferences zero_length_request) \<and>
   generate_study_plan 739190 zero_length_request =
     Inr \<lparr>days = [\<lparr>day_date = 739194, sessions =
              [\<lparr>ss_subject = ''Math'', ss_topic = ''A'', ss_date = 739194,
                start_time = 9, end_time = 9, duration_hours = 0,
                session_type = ''regular''\<rparr>]\<rparr>],
          total_study_hours = 0, subjects_distribution = [(''Math'', 0)],
          insufficient_time = False, total_hours_needed = 1,
          available_hours = 3, unallocated_topics = []\<rparr>"
  by code_simp

section \<open>The advisory totals\<close>

lemma total_needed_eq: "total_needed ss acc = acc + sum_list (map subject_hours ss)"
  by (induction ss arbitrary: acc) (simp_all add: algebra_simps)

lemma subject_hours_eq:
  "subject_hours s = (if subject_exam_date s \<noteq> None then 3/2 else 1) *
                     sum_list (map estimated_hours (subject_topics s))"
  by (simp add: subject_hours_def Let_def)

text \<open>
  C9. In a response of the engine, total_hours_needed is the sum, over the subjects, of
  the subject's total of estimated hours, times 1.5 exactly for the subjects with an exam
  date; available_hours is the sum of weekend_hours or weekday_hours over the days of the
  inclusive date range that are not break days; and the insufficient_time flag says that
  the latter is strictly less than the former. The engine returns a response whenever the
  date and clock arithmetic of the request stays in range.
\<close>

theorem advisory_totals:
  "(\<forall>r. generate_study_plan today req = Inr r \<longrightarrow>
     total_hours_needed r =
       (\<Sum>s\<leftarrow>subjects req. (if subject_exam_date s \<noteq> None then 3/2 else 1) *
                             (\<Sum>t\<leftarrow>subject_topics s. estimated_hours t)) \<and>
     available_hours r =
       (\<Sum>d\<leftarrow>[start_date req..end_date req].
          if is_break_day (preferences req) d then 0
          else if is_weekend d then weekend_hours (preferences req)
          else weekday_hours (preferences req)) \<and>
     insufficient_time r = (available_hours r < total_hours_needed r)) \<and>
   (no_overflow today req \<longrightarrow> (\<exists>r. generate_study_plan today req = Inr r))"
proof (intro conjI allI impI)
  fix r assume "generate_study_plan today req = Inr r"
  from generate_study_plan_Inr[OF this] obtain avail where
    a: "available_loop (preferences req) (end_date req) (start_date req) 0 = Inr avail"
    and r: "total_hours_needed r = total_needed (subjects req) 0"
       "available_hours r = avail"
       "insufficient_time r = (available_hours r < total_hours_needed r)"
    by auto
  have e1: "subject_hours = (\<lambda>s. (if subject_exam_date s \<noteq> None then 3/2 else 1) *
                  (\<Sum>t\<leftarrow>subject_topics s. estimated_hours t))"
    by (rule ext) (rule subject_hours_eq)
  show "total_hours_needed r =
       (\<Sum>s\<leftarrow>subjects req. (if subject_exam_date s \<noteq> None then 3/2 else 1) *
                             (\<Sum>t\<leftarrow>subject_topics s. estimated_hours t))"
    unfolding r(1) total_needed_eq e1 by simp
  from a have "avail = available_between (preferences req) (start_date req) (end_date req)"
    by (simp add: available_loop_eq split: if_splits)
  then show "available_hours r =
       (\<Sum>d\<leftarrow>[start_date req..end_date req].
          if is_break_day (preferences req) d then 0
          else if is_weekend d then weekend_hours (preferences req)
          else weekday_hours (preferences req))"
    using r(2) by (simp add: available_between_def)
  show "insufficient_time r = (available_hours r < total_hours_needed r)" by (rule r(3))
next
  assume "no_overflow today req"
  then show "\<exists>r. generate_study_plan today req = Inr r" by (rule generate_study_plan_total)
qed

theorem advisory_totals_witness:
  "no_overflow 739190 tight_request \<and>
   (\<exists>r. generate_study_plan 739190 tight_request = Inr r \<and>
      total_hours_needed r = 11/2 \<and> available_hours r = 3 \<and> insufficient_time r)"
proof -
  have n: "no_overflow 739190 tight_request"
    by code_simp
  have needed: "(\<Sum>s\<leftarrow>subjects tight_request. (if subject_exam_date s \<noteq> None then 3/2 else 1) *
                             (\<Sum>t\<leftarrow>subject_topics s. estimated_hours t)) = 11/2"
    by code_simp
  have avail: "(\<Sum>d\<leftarrow>[start_date tight_request..end_date tight_request].
          if is_break_day (preferences tight_request) d then 0
          else if is_weekend d then weekend_hours (preferences tight_request)
          else weekday_hours (preferences tight_request)) = 3"
    by code_simp
  from advisory_totals[of 739190 tight_request] n obtain r where
    "generate_study_plan 739190 tight_request = Inr r"
    "total_hours_needed r = 11/2" "available_hours r = 3"
    "insufficient_time r = (available_hours r < total_hours_needed r)"
    unfolding needed avail by blast
  with n show ?thesis by simp
qed

section \<open>Degenerate input\<close>

lemma run_pass_idle: "hours_left st < 1/2 \<Longrightarrow> run_pass step js st = Inr st"
  by (cases js) simp_all

lemma day_passes_idle:
  assumes "day_budget p d < 1/2"
  shows "day_passes today p d sd = Inr (day_start p d sd)"
proof -
  have "hours_left (day_start p d sd) < 1/2" using assms by (simp add: day_start_def)
  then show ?thesis by (simp add: day_passes_def run_pass_idle)
qed

lemma no_budget_loop:
  assumes "weekday_hours p < 1/2" "weekend_hours p < 1/2"
  shows "loop_inv today p e (\<lambda>cur sd dys un. dys = [])"
proof -
  have "day_budget p d < 1/2" for d using assms by (simp add: day_budget_def)
  then show ?thesis by (auto simp: loop_inv_def day_passes_idle day_start_def)
qed

lemma no_budget_total:
  assumes "weekday_hours p < 1/2" "weekend_hours p < 1/2" "0 \<le> cur" "e < max_ordinal"
  shows "\<exists>r. schedule_loop today p e cur sd dys un = Inr r"
  using assms
proof (induction today p e cur sd dys un rule: schedule_loop.induct)
  case (1 today p e cur sd dys un)
  have "day_budget p cur < 1/2" using "1.prems"(1,2) by (simp add: day_budget_def)
  then have idle: "day_passes today p cur sd = Inr (day_start p cur sd)"
    by (rule day_passes_idle)
  show ?case
  proof (cases "cur \<le> e")
    case False
    then show ?thesis by (subst schedule_loop.simps) simp
  next
    case le: True
    with "1.prems"(3,4) have d: "date_add cur 1 = Inr (cur + 1)"
      by (simp add: date_add_def max_ordinal_def)
    have nn: "0 \<le> cur + 1" using "1.prems"(3) by simp
    show ?thesis
    proof (cases "is_break_day p cur")
      case True
      from "1.IH"(1)[OF le True d "1.prems"(1,2) nn "1.prems"(4)]
      show ?thesis using le True d by (subst schedule_loop.simps) simp
    next
      case False
      from "1.IH"(2)[OF le False idle d "1.prems"(1,2) nn "1.prems"(4)]
      show ?thesis using le False d idle by (subst schedule_loop.simps) simp
    qed
  qed
qed

text \<open>
  C8 (amended). When end_date is strictly before start_date, the engine returns a response
  with zero scheduled days, zero total study hours and zero available hours. When
  weekday_hours and weekend_hours are both negative, every response of the engine has
  zero scheduled days and zero total study hours, and the engine returns a response
  whenever the range starts at a date and ends before 9999-12-31. The revision allocator
  never raises ZeroDivisionError: the division by the topic count is guarded against a
  zero count.
\<close>

theorem invalid_input:
  "(end_date req < start_date req \<longrightarrow>
      (\<exists>r. generate_study_plan today req = Inr r \<and>
         days r = [] \<and> total_study_hours r = 0 \<and> available_hours r = 0)) \<and>
   (weekday_hours (preferences req) < 0 \<and> weekend_hours (preferences req) < 0 \<longrightarrow>
      (\<forall>r. generate_study_plan today req = Inr r \<longrightarrow>
         days r = [] \<and> total_study_hours r = 0) \<and>
      (1 \<le> start_date req \<and> end_date req < max_ordinal \<longrightarrow>
         (\<exists>r. generate_study_plan today req = Inr r))) \<and>
   add_revision_session today s d ct budget maxd brk ds \<noteq> Inl ZeroDivisionError"
proof (intro conjI impI allI)
  assume inv: "end_date req < start_date req"
  then have "available_loop (preferences req) (end_date req) (start_date req) 0 = Inr 0"
    by (simp add: available_loop_eq available_between_def)
  moreover have "schedule_loop today (preferences req) (end_date req) (start_date req)
        (map init_subject (subjects req)) [] [] = Inr ([], [])"
    using inv by (rule schedule_loop_empty_range)
  ultimately show "\<exists>r. generate_study_plan today req = Inr r \<and>
         days r = [] \<and> total_study_hours r = 0 \<and> available_hours r = 0"
    by (simp add: generate_study_plan_def generate_rule_based_schedule_def Let_def
          all_sessions_def)
next
  fix r
  assume neg: "weekday_hours (preferences req) < 0 \<and> weekend_hours (preferences req) < 0"
    and r: "generate_study_plan today req = Inr r"
  from generate_study_plan_Inr[OF r] obtain dys un where
    g: "schedule_loop today (preferences req) (end_date req) (start_date req)
          (map init_subject (subjects req)) [] [] = Inr (dys, un)"
    and d: "days r = dys"
      "total_study_hours r = sum_list (map duration_hours (all_sessions dys))"
    by auto
  from neg have "loop_inv today (preferences req) (end_date req) (\<lambda>cur sd dys un. dys = [])"
    by (intro no_budget_loop) simp_all
  from schedule_loop_rule[where J = "\<lambda>cur sd dys un. dys = []", OF g refl this]
  have "dys = []" by simp
  with d show "days r = []" "total_study_hours r = 0" by (simp_all add: all_sessions_def)
next
  assume neg: "weekday_hours (preferences req) < 0 \<and> weekend_hours (preferences req) < 0"
    and rng: "1 \<le> start_date req \<and> end_date req < max_ordinal"
  then have a: "available_loop (preferences req) (end_date req) (start_date req) 0
      = Inr (0 + available_between (preferences req) (start_date req) (end_date req))"
    by (simp add: available_loop_eq)
  have "\<exists>r. schedule_loop today (preferences req) (end_date req) (start_date req)
        (map init_subject (subjects req)) [] [] = Inr r"
    using neg rng by (intro no_budget_total) simp_all
  then obtain dys un where "schedule_loop today (preferences req) (end_date req) (start_date req)
        (map init_subject (subjects req)) [] [] = Inr (dys, un)" by force
  with a show "\<exists>r. generate_study_plan today req = Inr r"
    by (simp add: generate_study_plan_def generate_rule_based_schedule_def Let_def)
next
  show "add_revision_session today s d ct budget maxd brk ds \<noteq> Inl ZeroDivisionError"
    using add_revision_session_no_division_error[of today s d ct budget maxd brk ds] by simp
qed

theorem invalid_input_witness:
  "end_date inverted_request < start_date inverted_request \<and>
   generate_study_plan 739190 inverted_request =
     Inr \<lparr>days = [], total_study_hours = 0, subjects_distribution = [],
          insufficient_time = True, total_hours_needed = 1,
          available_hours = 0, unallocated_topics = []\<rparr> \<and>
   weekday_hours (preferences negative_budget_request) < 0 \<and>
   weekend_hours (preferences negative_budget_request) < 0 \<and>
   1 \<le> start_date negative_budget_request \<and> end_date negative_budget_request < max_ordinal \<and>
   generate_study_plan 739190 negative_budget_request =
     Inr \<lparr>days = [], total_study_hours = 0, subjects_distribution = [],
          insufficient_time = True, total_hours_needed = 1,
          available_hours = - 12, unallocated_topics = []\<rparr> \<and>
   add_revision_session 739190 (init_subject no_topics) 739194 9 2 (3/2) (1/4) [] =
     Inr (init_subject no_topics, [], 0, 9)"
proof -
  have a: "end_date inverted_request < start_date inverted_request"
    by (simp add: inverted_request_def)
  have b: "weekday_hours (preferences negative_budget_request) < 0"
    "weekend_hours (preferences negative_budget_request) < 0"
    "1 \<le> start_date negative_budget_request" "end_date negative_budget_request < max_ordinal"
    by (simp_all add: negative_budget_request_def default_prefs_def max_ordinal_def)
  have v1: "generate_study_plan 739190 inverted_request =
     Inr \<lparr>days = [], total_study_hours = 0, subjects_distribution = [],
          insufficient_time = True, total_hours_needed = 1,
          available_hours = 0, unallocated_topics = []\<rparr>"
    by code_simp
  have v2: "generate_study_plan 739190 negative_budget_request =
     Inr \<lparr>days = [], total_study_hours = 0, subjects_distribution = [],
          insufficient_time = True, total_hours_needed = 1,
          available_hours = - 12, unallocated_topics = []\<rparr>"
    by code_simp
  have v3: "add_revision_session 739190 (init_subject no_topics) 739194 9 2 (3/2) (1/4) [] =
     Inr (init_subject no_topics, [], 0, 9)"
    by code_simp
  from invalid_input[of inverted_request 739190 "init_subject no_topics" 739194 9 2 "3/2" "1/4" "[]"]
    invalid_input[of negative_budget_request 739190 "init_subject no_topics" 739194 9 2 "3/2" "1/4" "[]"]
    a b v1 v2 v3
  show ?thesis by blast
qed

theorem invalid_input_counterexample:
  "weekday_hours (preferences negative_weekday_request) < 0 \<and>
   generate_study_plan 739190 negative_weekday_request =
     Inr \<lparr>days = [\<lparr>day_date = 739199, sessions =
              [\<lparr>ss_subject = ''Math'', ss_topic = ''A'', ss_date = 739199,
                start_time = 9, end_time = 10, duration_hours = 1,
                session_type = ''regular''\<rparr>]\<rparr>],
          total_study_hours = 1, subjects_distribution = [(''Math'', 1)],
          insufficient_time = False, total_hours_needed = 1,
          available_hours = 5, unallocated_topics = []\<rparr> \<and>
   weekday_hours (preferences last_day_request) < 0 \<and>
   weekend_hours (preferences last_day_request) < 0 \<and>
   generate_study_plan 739190 last_day_request = Inl OverflowError"
  by code_simp

section \<open>The revision flag\<close>

text \<open>
  C2 (the code departs from the claim). On Monday 2024-11-04, the revision day of a
  subject with three topics and an exam two days later, with a budget of half an hour,
  the revision allocator revises one topic of the three and leaves revision_completed
  false (lines 481-484), as the claim says; the engine then sets the flag all the same
  (line 187), so the day ends with revision_completed true after one revised topic.
\<close>

theorem revision_flag_overwritten:
  "add_revision_session 739190 (init_subject bio) 739194 9 (1/2) (3/2) (1/4) [] =
     Inr (init_subject bio,
          [\<lparr>ss_subject = ''Bio'', ss_topic = ''Revision: T1'', ss_date = 739194,
            start_time = 9, end_time = 55/6, duration_hours = 1/6,
            session_type = ''revision''\<rparr>],
          5/12, 113/12) \<and>
   revision_completed (init_subject bio) = False \<and>
   day_passes 739190 short_revision_prefs 739194 [init_subject bio] =
     Inr \<lparr>sdata = [(init_subject bio)\<lparr>revision_completed := True\<rparr>],
          hours_left = 1/12, current_time = 113/12,
          day_sessions =
            [\<lparr>ss_subject = ''Bio'', ss_topic = ''Revision: T1'', ss_date = 739194,
              start_time = 9, end_time = 55/6, duration_hours = 1/6,
              session_type = ''revision''\<rparr>],
          covered = {''Bio''}\<rparr>"
  by code_simp

section \<open>Completion of subjects\<close>

lemma reaches_schedule_loop:
  "reaches today p e (c0, sd0, dys0, un0) (cur, sd, dys, un) \<Longrightarrow>
   schedule_loop today p e cur sd dys un = schedule_loop today p e c0 sd0 dys0 un0"
proof (induction "(cur, sd, dys, un)" arbitrary: cur sd dys un rule: reaches.induct)
  case start
  then show ?case by simp
next
  case (skip cur sd dys un nxt)
  have "schedule_loop today p e cur sd dys un = schedule_loop today p e nxt sd dys un"
    using skip(3,4,5) by (subst schedule_loop.simps) simp
  with skip(2) show ?case by simp
next
  case (day cur sd dys un st nxt)
  have "schedule_loop today p e cur sd dys un =
        schedule_loop today p e nxt (fst (update_completed nxt (sdata st) un))
          (if day_sessions st \<noteq> []
           then dys @ [\<lparr>day_date = cur, sessions = day_sessions st\<rparr>] else dys)
          (snd (update_completed nxt (sdata st) un))"
    using day(3,4,5,6) by (subst schedule_loop.simps) simp
  with day(2) show ?case by simp
qed






lemma settled_revised [simp]:
  "settled (s\<lparr>revision_completed := b\<rparr>) = settled s"
  "hours_done (s\<lparr>revision_completed := b\<rparr>) = hours_done s"
  by (simp_all add: settled_def hours_done_def)










section \<open>The daily budget\<close>

lemma wrap24_shift: "wrap24 (a + g) = wrap24 a \<longleftrightarrow> wrap24 g = 0"
proof
  assume "wrap24 (a + g) = wrap24 a"
  then have "g = 24 * of_int (\<lfloor>(a + g) / 24\<rfloor> - \<lfloor>a / 24\<rfloor>)"
    by (simp add: wrap24_def algebra_simps)
  then obtain k :: int where g: "g = 24 * of_int k" by blast
  have "\<lfloor>g / 24\<rfloor> = k" unfolding g by simp
  then show "wrap24 g = 0" by (simp add: wrap24_def g)
next
  assume "wrap24 g = 0"
  then have g: "g = 24 * of_int \<lfloor>g / 24\<rfloor>" by (simp add: wrap24_def)
  define k where "k = \<lfloor>g / 24\<rfloor>"
  have gk: "g = 24 * of_int k" using g by (simp add: k_def)
  have e: "(a + g) / 24 = a / 24 + of_int k" unfolding gk by simp
  have "\<lfloor>(a + g) / 24\<rfloor> = \<lfloor>a / 24\<rfloor> + k"
    unfolding e by (rule floor_add_int[symmetric])
  then show "wrap24 (a + g) = wrap24 a" by (simp add: wrap24_def gk algebra_simps)
qed

lemma breaks_between_snoc:
  "breaks_between brk (ds @ [x]) =
     breaks_between brk ds +
       (if ds = [] then 0 else if start_time x = end_time (last ds) then 0 else brk)"
  by (induction brk ds rule: breaks_between.induct) simp_all

lemma day_load_snoc:
  "day_load brk (ds @ [x]) = day_load brk ds + trail brk (start_time x) ds + duration_hours x"
  by (simp add: day_load_def breaks_between_snoc trail_def)

lemma acct_step:
  assumes rb: "readable_break brk"
    and a: "acct brk B ds ct spent"
    and room: "dur \<le> room" "spent + room \<le> B"
    and g: "g = 0 \<or> g = brk"
    and x: "start_time x = ct" "end_time x = wrap24 (datetime_combine today ct + dur)"
      "duration_hours x = dur"
  shows "acct brk B (ds @ [x]) (wrap24 (datetime_combine today ct + dur + g)) (spent + dur + g)"
proof -
  from a have sp: "day_load brk ds + trail brk ct ds \<le> spent" by (simp add: acct_def)
  have load: "day_load brk (ds @ [x]) \<le> spent + dur"
    unfolding day_load_snoc x using sp by simp
  have same: "wrap24 (datetime_combine today ct + dur + g) = end_time x \<longleftrightarrow> wrap24 g = 0"
    unfolding x by (rule wrap24_shift)
  have "trail brk (wrap24 (datetime_combine today ct + dur + g)) (ds @ [x]) \<le> g"
  proof (cases "wrap24 g = 0")
    case True
    with same have "trail brk (wrap24 (datetime_combine today ct + dur + g)) (ds @ [x]) = 0"
      by (simp add: trail_def)
    moreover have "0 \<le> g" using g True rb by (auto simp: readable_break_def)
    ultimately show ?thesis by simp
  next
    case False
    with g have "g = brk" by (auto simp: wrap24_def)
    with same False show ?thesis by (simp add: trail_def)
  qed
  with load room show ?thesis by (simp add: acct_def)
qed

lemma revision_loop_acct:
  assumes rb: "readable_break brk"
  shows "revision_loop today nm d maxd brk quota tpt ts (revised, remaining, used, cst, ds)
           = Inr (revised', remaining', used', cst', ds') \<Longrightarrow>
         acct brk B ds cst (s0 + used) \<Longrightarrow> s0 + used + remaining \<le> B \<Longrightarrow>
         acct brk B ds' cst' (s0 + used')"
proof (induction ts arbitrary: revised remaining used cst ds)
  case Nil
  then show ?case by simp
next
  case (Cons t ts)
  define dur where "dur = min3 maxd remaining tpt"
  show ?case
  proof (cases "revised < quota \<and> remaining > 1/10")
    case False
    from Cons.prems show ?thesis unfolding revision_loop_stop[OF False] by simp
  next
    case go: True
    show ?thesis
    proof (cases "dur < 1/10")
      case True
      then have sk: "min3 maxd remaining tpt < 1/10" by (simp add: dur_def)
      from Cons.prems show ?thesis unfolding revision_loop_skip[OF sk] by simp
    next
      case False
      define g where "g = (if remaining - dur > 1/10 then brk else 0)"
      define x where "x = revision_session today nm t d cst dur"
      note step = revision_loop_step[of revised quota remaining dur maxd tpt today nm d brk t ts
                     used cst ds, OF go[THEN conjunct1] go[THEN conjunct2] dur_def False]
      have rec: "revision_loop today nm d maxd brk quota tpt ts
           (revised + 1, remaining - dur - g, used + dur + g,
            wrap24 (datetime_combine today cst + dur + g), ds @ [x])
          = Inr (revised', remaining', used', cst', ds')"
        using Cons.prems(1) unfolding step
        by (auto simp: x_def g_def split: sum.splits if_splits dest!: datetime_add_Inr)
      have le: "dur \<le> remaining" unfolding dur_def by (rule min3_le)
      have a1: "acct brk B (ds @ [x]) (wrap24 (datetime_combine today cst + dur + g))
                  (s0 + used + dur + g)"
      proof (rule acct_step[OF rb Cons.prems(2) le Cons.prems(3)])
        show "g = 0 \<or> g = brk" by (simp add: g_def)
      qed (simp_all add: x_def revision_session_def)
      have a2: "acct brk B (ds @ [x]) (wrap24 (datetime_combine today cst + dur + g))
                  (s0 + (used + dur + g))"
        using a1 by (simp add: algebra_simps)
      show ?thesis
        by (rule Cons.IH[OF rec a2]) (use Cons.prems(3) in simp)
    qed
  qed
qed

lemma acct_day:
  assumes rb: "readable_break (break_duration p)"
  shows "day_inv today p d sd (\<lambda>st. acct (break_duration p) B (day_sessions st)
           (current_time st) (B - hours_left st))"
proof (rule day_invI)
  fix i and tgt :: rat and st st' :: day_state
  assume I: "acct (break_duration p) B (day_sessions st) (current_time st) (B - hours_left st)"
    and tgt: "tgt \<le> hours_left st" and r: "study_step today p d tgt i st = Inr st'"
  from r show "acct (break_duration p) B (day_sessions st') (current_time st') (B - hours_left st')"
  proof (cases rule: study_step_cases)
    case (idle s')
    with I show ?thesis by simp
  next
    case (study j t dur g)
    have le: "dur \<le> tgt" unfolding study(6) by (rule min3_le)
    have room: "B - hours_left st + tgt \<le> B" using tgt by simp
    have "acct (break_duration p) B
            (day_sessions st @ [regular_session today (s_name (sdata st ! i)) t d (current_time st) dur])
            (wrap24 (datetime_combine today (current_time st) + dur + g))
            (B - hours_left st + dur + g)"
    proof (rule acct_step[OF rb I le room])
      show "g = 0 \<or> g = break_duration p" by (simp add: study(7) break_after_def)
    qed (simp_all add: regular_session_def)
    then show ?thesis by (simp add: study(8) algebra_simps)
  qed
next
  fix i and tgt :: rat and st st' :: day_state and e :: date
  assume I: "acct (break_duration p) B (day_sessions st) (current_time st) (B - hours_left st)"
    and tgt: "tgt \<le> hours_left st" and r: "revise_step today p d tgt i st = Inr st'"
  from r show "acct (break_duration p) B (day_sessions st') (current_time st') (B - hours_left st')"
  proof (cases rule: revise_step_cases)
    case idle
    with I show ?thesis by simp
  next
    case (run revised remaining used cst ds')
    have a0: "acct (break_duration p) B (day_sessions st) (current_time st)
                (B - hours_left st + 0)" using I by simp
    have "acct (break_duration p) B ds' cst (B - hours_left st + used)"
      by (rule revision_loop_acct[OF rb run(4) a0]) (use tgt in simp)
    then show ?thesis by (simp add: run(5) algebra_simps)
  qed
next
  fix i and st :: day_state
  assume "acct (break_duration p) B (day_sessions st) (current_time st) (B - hours_left st)"
  then show "acct (break_duration p) B (day_sessions (mark_covered i st))
               (current_time (mark_covered i st)) (B - hours_left (mark_covered i st))"
    by simp
qed

lemma acct_loop:
  assumes rb: "readable_break (break_duration p)"
  shows "loop_inv today p e (\<lambda>cur sd dys un.
           \<forall>dy \<in> set dys. day_load (break_duration p) (sessions dy) \<le> day_budget p (day_date dy))"
  unfolding loop_inv_def
proof (intro conjI allI impI, goal_cases)
  case (1 cur sd dys un)
  then show ?case by simp
next
  case (2 cur sd dys un st)
  have "acct (break_duration p) (day_budget p cur) (day_sessions st) (current_time st)
          (day_budget p cur - hours_left st) \<and> based sd st"
    by (rule day_passes_prop[OF acct_day[OF rb], where d=cur and sd=sd and st=st and today=today])
       (use 2 in \<open>simp_all add: day_start_def acct_def day_load_def trail_def\<close>)
  then have "day_sessions st \<noteq> [] \<longrightarrow>
             day_load (break_duration p) (day_sessions st) \<le> day_budget p cur"
    by (simp add: acct_def)
  with 2 show ?case by auto
qed

text \<open>
  C3. In every response of the engine, for every day of the plan, the durations of the
  day's sessions plus the breaks inserted between them are at most the budget of the day:
  weekend_hours when the date is a Saturday or a Sunday, weekday_hours otherwise. The
  breaks are read off the start and end times of the sessions: a session that does not
  start when the session before it ends comes after a break of break_duration hours. The
  only requests left out are those whose break_duration is a negative whole number of
  days, whose breaks the times of day do not show. The engine returns a response whenever
  the date and clock arithmetic of the request stays in range.
\<close>

theorem daily_budget:
  assumes "readable_break (break_duration (preferences req))"
  shows "(\<forall>r. generate_study_plan today req = Inr r \<longrightarrow>
            (\<forall>dy \<in> set (days r).
               day_load (break_duration (preferences req)) (sessions dy)
                 \<le> (if is_weekend (day_date dy) then weekend_hours (preferences req)
                     else weekday_hours (preferences req)))) \<and>
         (no_overflow today req \<longrightarrow> (\<exists>r. generate_study_plan today req = Inr r))"
proof (rule conjI)
  let ?p = "preferences req"
  let ?J = "\<lambda>(cur::date) (sd::subject_data list) dys (un::unallocated_topic list).
       \<forall>dy \<in> set dys. day_load (break_duration ?p) (sessions dy) \<le> day_budget ?p (day_date dy)"
  show "\<forall>r. generate_study_plan today req = Inr r \<longrightarrow>
            (\<forall>dy \<in> set (days r).
               day_load (break_duration ?p) (sessions dy)
                 \<le> (if is_weekend (day_date dy) then weekend_hours ?p else weekday_hours ?p))"
  proof (intro allI impI)
    fix r assume "generate_study_plan today req = Inr r"
    from generate_study_plan_Inr[OF this] obtain dys un where
      g: "schedule_loop today ?p (end_date req) (start_date req)
            (map init_subject (subjects req)) [] [] = Inr (dys, un)"
      and r: "days r = dys"
      by auto
    have J0: "?J (start_date req) (map init_subject (subjects req)) [] []" by simp
    from schedule_loop_rule[where J = ?J, OF g J0 acct_loop[OF assms]]
    have "\<forall>dy \<in> set dys. day_load (break_duration ?p) (sessions dy) \<le> day_budget ?p (day_date dy)"
      by blast
    with r show "\<forall>dy \<in> set (days r).
               day_load (break_duration ?p) (sessions dy)
                 \<le> (if is_weekend (day_date dy) then weekend_hours ?p else weekday_hours ?p)"
      by (simp add: day_budget_def)
  qed
  show "no_overflow today req \<longrightarrow> (\<exists>r. generate_study_plan today req = Inr r)"
    by (intro impI generate_study_plan_total)
qed

theorem daily_budget_witness:
  "readable_break (break_duration (preferences busy_request)) \<and>
   no_overflow 739190 busy_request \<and>
   generate_study_plan 739190 busy_request =
     Inr \<lparr>days = [\<lparr>day_date = 739194, sessions = busy_day\<rparr>],
          total_study_hours = 5/2,
          subjects_distribution = [(''Bio'', 3/2), (''Math'', 1)],
          insufficient_time = True, total_hours_needed = 11/2,
          available_hours = 3, unallocated_topics = []\<rparr> \<and>
   day_load (break_duration (preferences busy_request)) busy_day = 3 \<and>
   \<not> is_weekend 739194 \<and> weekday_hours (preferences busy_request) = 3"
proof -
  have h: "readable_break (break_duration (preferences busy_request))"
    by code_simp
  have n: "no_overflow 739190 busy_request"
    by code_simp
  have v: "generate_study_plan 739190 busy_request =
     Inr \<lparr>days = [\<lparr>day_date = 739194, sessions = busy_day\<rparr>],
          total_study_hours = 5/2,
          subjects_distribution = [(''Bio'', 3/2), (''Math'', 1)],
          insufficient_time = True, total_hours_needed = 11/2,
          available_hours = 3, unallocated_topics = []\<rparr>"
    by code_simp
  have l: "day_load (break_duration (preferences busy_request)) busy_day = 3"
    "\<not> is_weekend 739194" "weekday_hours (preferences busy_request) = 3"
    by code_simp+
  from daily_budget[OF h, of 739190] h n v l show ?thesis by blast
qed

section \<open>Hours given to a topic\<close>



lemma fixed_nth:
  assumes "map fixed_part sdl = map fixed_part sd0" "k < length sd0"
  shows "s_name (sdl ! k) = s_name (sd0 ! k)"
    and "map t_name (topics (sdl ! k)) = map t_name (topics (sd0 ! k))"
    and "map hours_needed (topics (sdl ! k)) = map hours_needed (topics (sd0 ! k))"
    and "length (topics (sdl ! k)) = length (topics (sd0 ! k))"
proof -
  have len: "length sdl = length sd0" using assms(1) by (rule map_eq_imp_length_eq)
  have "fixed_part (sdl ! k) = map fixed_part sdl ! k" using len assms(2) by simp
  also have "\<dots> = map fixed_part sd0 ! k" by (simp only: assms(1))
  also have "\<dots> = fixed_part (sd0 ! k)" using assms(2) by simp
  finally have f: "fixed_part (sdl ! k) = fixed_part (sd0 ! k)" .
  then show "s_name (sdl ! k) = s_name (sd0 ! k)"
    and tn: "map t_name (topics (sdl ! k)) = map t_name (topics (sd0 ! k))"
    and "map hours_needed (topics (sdl ! k)) = map hours_needed (topics (sd0 ! k))"
    by (simp_all add: fixed_part_def)
  from tn show "length (topics (sdl ! k)) = length (topics (sd0 ! k))"
    by (rule map_eq_imp_length_eq)
qed





lemma update_completed_fixed:
  "map fixed_part (fst (update_completed cur sdl un)) = map fixed_part sdl"
  "k < length sdl \<Longrightarrow> topics (fst (update_completed cur sdl un) ! k) = topics (sdl ! k)"
  by (simp_all add: update_completed_eq fixed_part_def)









section \<open>Revision days\<close>

lemma revs_append: "revs nm (xs @ ys) = revs nm xs @ revs nm ys"
  by (simp add: revs_def)

lemma revs_none:
  assumes "\<forall>x \<in> set ys. session_type x \<noteq> ''revision'' \<or> ss_subject x \<noteq> nm"
  shows "revs nm ys = []"
  using assms by (auto simp: revs_def filter_empty_conv)

lemma revs_all:
  assumes "\<forall>x \<in> set ys. session_type x = ''revision'' \<and> ss_subject x = nm"
  shows "revs nm ys = ys"
  using assms by (simp add: revs_def)

lemma fixed_exam:
  assumes "map fixed_part sdl = map fixed_part sd0" "k < length sd0"
  shows "exam_date (sdl ! k) = exam_date (sd0 ! k)"
proof -
  have len: "length sdl = length sd0" using assms(1) by (rule map_eq_imp_length_eq)
  have "fixed_part (sdl ! k) = map fixed_part sdl ! k" using len assms(2) by simp
  also have "\<dots> = map fixed_part sd0 ! k" by (simp only: assms(1))
  also have "\<dots> = fixed_part (sd0 ! k)" using assms(2) by simp
  finally show ?thesis by (simp add: fixed_part_def)
qed

lemma rledger_keep:
  assumes L: "rledger rdb sd0 xs sdl"
    and ys: "\<forall>x \<in> set ys. session_type x \<noteq> ''revision''"
    and rc: "\<forall>k < length sd0. revision_completed (sdl ! k) \<longrightarrow> revision_completed (sdl' ! k)"
  shows "rledger rdb sd0 (xs @ ys) sdl'"
proof -
  have "revs nm ys = []" for nm using ys by (intro revs_none) simp
  with L rc show ?thesis by (auto simp: rledger_def revs_append)
qed

lemma rledger_revise:
  assumes names: "distinct (map s_name sd0)"
    and fx: "map fixed_part sdl = map fixed_part sd0"
    and L: "rledger rdb sd0 xs sdl"
    and i: "i < length sd0"
    and pre: "exam_date (sdl ! i) = Some e" "\<not> revision_completed (sdl ! i)"
    and new: "\<forall>x \<in> set new. session_type x = ''revision'' \<and> ss_subject x = s_name (sdl ! i) \<and>
                ss_date x = e - rdb"
      "length new \<le> 5"
      "map ss_topic new = map rev_label (take (length new) (topics (sdl ! i)))"
  shows "rledger rdb sd0 (xs @ new) (sdl[i := (sdl ! i)\<lparr>revision_completed := True\<rparr>])"
  unfolding rledger_def
proof (intro allI impI)
  fix k assume k: "k < length sd0"
  let ?nm = "s_name (sd0 ! k)"
  let ?sdl' = "sdl[i := (sdl ! i)\<lparr>revision_completed := True\<rparr>]"
  from L k have b: "one_batch rdb (exam_date (sd0 ! k)) (map t_name (topics (sd0 ! k))) (revs ?nm xs)"
    and e: "\<not> revision_completed (sdl ! k) \<longrightarrow> revs ?nm xs = []"
    by (simp_all add: rledger_def)
  have len: "length sdl = length sd0" using fx by (rule map_eq_imp_length_eq)
  note fi = fixed_nth[OF fx i] fixed_exam[OF fx i]
  show "one_batch rdb (exam_date (sd0 ! k)) (map t_name (topics (sd0 ! k))) (revs ?nm (xs @ new)) \<and>
        (\<not> revision_completed (?sdl' ! k) \<longrightarrow> revs ?nm (xs @ new) = [])"
  proof (cases "k = i")
    case False
    have "map s_name sd0 ! i \<noteq> map s_name sd0 ! k"
      using names i k False by (simp add: nth_eq_iff_index_eq del: nth_map)
    then have "s_name (sd0 ! i) \<noteq> ?nm" using i k by simp
    then have "revs ?nm new = []" using new(1) fi(1) by (intro revs_none) simp
    moreover have "?sdl' ! k = sdl ! k" using False by simp
    ultimately show ?thesis using b e by (simp add: revs_append)
  next
    case True
    from e pre(2) True have x0: "revs ?nm xs = []" by simp
    have "revs ?nm new = new" using new(1) fi(1) True by (intro revs_all) simp
    with x0 have rv: "revs ?nm (xs @ new) = new" by (simp add: revs_append)
    have "map rev_label (take (length new) (topics (sdl ! i)))
            = map (\<lambda>nm. ''Revision: '' @ nm) (take (length new) (map t_name (topics (sdl ! i))))"
      by (simp add: take_map rev_label_def comp_def)
    with new(3) fi(2) have lab: "map ss_topic new =
        map (\<lambda>nm. ''Revision: '' @ nm) (take (length new) (map t_name (topics (sd0 ! i))))"
      by simp
    have "exam_date (sd0 ! i) = Some e" using pre(1) fi(5) by simp
    then have "one_batch rdb (exam_date (sd0 ! k)) (map t_name (topics (sd0 ! k))) new"
      using new(1,2) lab True by (simp add: one_batch_def list_all_iff)
    moreover have "revision_completed (?sdl' ! k)" using True i len by simp
    ultimately show ?thesis by (simp add: rv)
  qed
qed

lemma rledger_day:
  assumes names: "distinct (map s_name sd0)"
    and fxd: "map fixed_part sd = map fixed_part sd0"
  shows "day_inv today p d sd
           (\<lambda>st. rledger (revision_days_before p) sd0 (prev @ day_sessions st) (sdata st))"
proof (rule day_invI)
  fix i and tgt :: rat and st st' :: day_state
  assume I: "rledger (revision_days_before p) sd0 (prev @ day_sessions st) (sdata st)"
    and r: "study_step today p d tgt i st = Inr st'"
  from r show "rledger (revision_days_before p) sd0 (prev @ day_sessions st') (sdata st')"
  proof (cases rule: study_step_cases)
    case (idle s')
    from idle(2) have "revision_completed s' = revision_completed (sdata st ! i)" by auto
    then have rc: "\<forall>k < length sd0. revision_completed (sdata st ! k)
                     \<longrightarrow> revision_completed ((sdata st)[i := s'] ! k)"
      by (metis nth_list_update_eq nth_list_update_neq list_update_beyond not_less)
    have "rledger (revision_days_before p) sd0 ((prev @ day_sessions st) @ []) ((sdata st)[i := s'])"
      by (rule rledger_keep[OF I _ rc]) simp
    then show ?thesis by (simp add: idle(1))
  next
    case (study j t dur g)
    define s' where "s' = (sdata st ! i)
                  \<lparr>topics := (topics (sdata st ! i))[j := study_topic dur t],
                   current_topic_index := (if remaining_hours t - dur \<le> 1/100 then j + 1 else j)\<rparr>"
    define x where "x = regular_session today (s_name (sdata st ! i)) t d (current_time st) dur"
    have "revision_completed s' = revision_completed (sdata st ! i)" by (simp add: s'_def)
    then have rc: "\<forall>k < length sd0. revision_completed (sdata st ! k)
                     \<longrightarrow> revision_completed ((sdata st)[i := s'] ! k)"
      by (metis nth_list_update_eq nth_list_update_neq list_update_beyond not_less)
    have "rledger (revision_days_before p) sd0 ((prev @ day_sessions st) @ [x]) ((sdata st)[i := s'])"
      by (rule rledger_keep[OF I _ rc]) (simp add: x_def regular_session_def)
    then show ?thesis by (simp add: study(8) s'_def x_def)
  qed
next
  fix i and tgt :: rat and st st' :: day_state and e :: date
  assume I: "rledger (revision_days_before p) sd0 (prev @ day_sessions st) (sdata st)"
    and b: "based sd st" and i: "i < length sd"
    and ex: "exam_date (sdata st ! i) = Some e" and d: "d = e - revision_days_before p"
    and nrc: "\<not> revision_completed (sdata st ! i)"
    and r: "revise_step today p d tgt i st = Inr st'"
  from b fxd have fx: "map fixed_part (sdata st) = map fixed_part sd0" by (simp add: based_def)
  from fxd have "length sd = length sd0" by (rule map_eq_imp_length_eq)
  with i have i0: "i < length sd0" by simp
  from r show "rledger (revision_days_before p) sd0 (prev @ day_sessions st') (sdata st')"
  proof (cases rule: revise_step_cases)
    case idle
    have "rledger (revision_days_before p) sd0 ((prev @ day_sessions st) @ [])
            ((sdata st)[i := (sdata st ! i)\<lparr>revision_completed := True\<rparr>])"
      by (rule rledger_revise[OF names fx I i0 ex nrc]) simp_all
    then show ?thesis by (simp add: idle)
  next
    case (run revised remaining used cst ds')
    from revision_loop_sessions[OF run(4)] obtain new where
      new: "ds' = day_sessions st @ new" "revised = 0 + length new"
        "0 < revision_quota (sdata st ! i) \<longrightarrow> revised \<le> revision_quota (sdata st ! i)"
        "map ss_topic new = map rev_label (take (length new) (topics (sdata st ! i)))"
        "\<forall>x \<in> set new. ss_subject x = s_name (sdata st ! i) \<and> ss_date x = d \<and>
            session_type x = ''revision''"
      by auto
    have "length new \<le> 5" using new(2,3) run(3) by (simp add: revision_quota_def)
    have "rledger (revision_days_before p) sd0 ((prev @ day_sessions st) @ new)
            ((sdata st)[i := (sdata st ! i)\<lparr>revision_completed := True\<rparr>])"
      by (rule rledger_revise[OF names fx I i0 ex nrc _ \<open>length new \<le> 5\<close> new(4)])
         (use new(5) d in simp)
    then show ?thesis by (simp add: run(5) new(1))
  qed
next
  fix i and st :: day_state
  assume "rledger (revision_days_before p) sd0 (prev @ day_sessions st) (sdata st)"
  then show "rledger (revision_days_before p) sd0 (prev @ day_sessions (mark_covered i st))
               (sdata (mark_covered i st))"
    by simp
qed

lemma update_completed_revision:
  "k < length sdl \<Longrightarrow>
   revision_completed (fst (update_completed cur sdl un) ! k) = revision_completed (sdl ! k)"
  by (simp add: update_completed_eq)

lemma rledger_loop:
  assumes names: "distinct (map s_name sd0)"
  shows "loop_inv today p e (\<lambda>cur sd dys un.
           map fixed_part sd = map fixed_part sd0 \<and>
           rledger (revision_days_before p) sd0 (all_sessions dys) sd)"
  unfolding loop_inv_def
proof ((rule conjI; intro allI impI), goal_cases)
  case (1 cur sd dys un)
  then show ?case by simp
next
  case (2 cur sd dys un st)
  then have fxd: "map fixed_part sd = map fixed_part sd0"
    and L: "rledger (revision_days_before p) sd0 (all_sessions dys) sd"
    and d: "day_passes today p cur sd = Inr st" and b: "based sd st"
    by simp_all
  have "rledger (revision_days_before p) sd0 (all_sessions dys @ day_sessions st) (sdata st)
          \<and> based sd st"
    by (rule day_passes_prop[OF rledger_day[OF names fxd], where today=today and d=cur and st=st])
       (use L d in \<open>simp_all add: day_start_def\<close>)
  then have L1: "rledger (revision_days_before p) sd0 (all_sessions dys @ day_sessions st) (sdata st)"
    by simp
  have len: "length (sdata st) = length sd0"
    using b fxd map_eq_imp_length_eq[of fixed_part sd fixed_part sd0] by (simp add: based_def)
  have rc: "\<forall>k < length sd0. revision_completed (sdata st ! k) \<longrightarrow>
      revision_completed (fst (update_completed (cur + 1) (sdata st) un) ! k)"
    using len by (simp add: update_completed_revision)
  have "rledger (revision_days_before p) sd0 ((all_sessions dys @ day_sessions st) @ [])
          (fst (update_completed (cur + 1) (sdata st) un))"
    by (rule rledger_keep[OF L1 _ rc]) simp
  moreover have "all_sessions (if day_sessions st \<noteq> []
             then dys @ [\<lparr>day_date = cur, sessions = day_sessions st\<rparr>] else dys)
        = all_sessions dys @ day_sessions st"
    by (simp add: all_sessions_def)
  moreover have "map fixed_part (fst (update_completed (cur + 1) (sdata st) un))
        = map fixed_part sd0"
    using b fxd by (simp add: update_completed_fixed(1) based_def)
  ultimately show ?case by simp
qed

lemma rledger_init:
  "rledger rdb (map init_subject subs) [] (map init_subject subs)"
  by (simp add: rledger_def one_batch_def revs_def split: option.splits)

text \<open>
  C4. Subjects being told apart by their names: in every response of the engine, a
  subject without an exam date has no session of type revision, and the revision
  sessions of a subject with an exam date are all on the date exam_date minus
  revision_days_before and are a single batch: at most five sessions, one for each of the
  first topics of the subject, in order. The engine returns a response whenever the date
  and clock arithmetic of the request stays in range.
\<close>

theorem revision_once:
  assumes "distinct (map subject_name (subjects req))"
  shows "(\<forall>r. generate_study_plan today req = Inr r \<longrightarrow>
            (\<forall>s \<in> set (subjects req).
               one_batch (revision_days_before (preferences req)) (subject_exam_date s)
                 (map topic_name (subject_topics s))
                 (revs (subject_name s) (all_sessions (days r))))) \<and>
         (no_overflow today req \<longrightarrow> (\<exists>r. generate_study_plan today req = Inr r))"
proof (rule conjI)
  let ?sd0 = "map init_subject (subjects req)"
  let ?rdb = "revision_days_before (preferences req)"
  let ?J = "\<lambda>(cur::date) sd dys (un::unallocated_topic list).
       map fixed_part sd = map fixed_part ?sd0 \<and> rledger ?rdb ?sd0 (all_sessions dys) sd"
  have n1: "distinct (map s_name ?sd0)"
    using assms(1) by (simp add: comp_def init_subject_def)
  have J0: "?J (start_date req) ?sd0 [] []"
    using rledger_init[of ?rdb "subjects req"] by (simp add: all_sessions_def)
  show "\<forall>r. generate_study_plan today req = Inr r \<longrightarrow>
            (\<forall>s \<in> set (subjects req).
               one_batch ?rdb (subject_exam_date s) (map topic_name (subject_topics s))
                 (revs (subject_name s) (all_sessions (days r))))"
  proof (intro allI impI ballI)
    fix r s
    assume "generate_study_plan today req = Inr r" and s: "s \<in> set (subjects req)"
    from generate_study_plan_Inr[OF this(1)] obtain dys un where
      g: "schedule_loop today (preferences req) (end_date req) (start_date req)
            ?sd0 [] [] = Inr (dys, un)"
      and r: "days r = dys"
      by auto
    from schedule_loop_rule[where J = ?J, OF g J0 rledger_loop[OF n1]]
    obtain sd' where L: "rledger ?rdb ?sd0 (all_sessions dys) sd'" by blast
    from s obtain k where k: "k < length (subjects req)" "s = subjects req ! k"
      by (auto simp: in_set_conv_nth)
    have sk: "?sd0 ! k = init_subject s" using k by simp
    from L k have "one_batch ?rdb (exam_date (?sd0 ! k)) (map t_name (topics (?sd0 ! k)))
          (revs (s_name (?sd0 ! k)) (all_sessions dys))"
      by (simp add: rledger_def)
    then show "one_batch ?rdb (subject_exam_date s) (map topic_name (subject_topics s))
                 (revs (subject_name s) (all_sessions (days r)))"
      unfolding sk r by (simp add: init_subject_def init_topic_def comp_def)
  qed
  show "no_overflow today req \<longrightarrow> (\<exists>r. generate_study_plan today req = Inr r)"
    by (intro impI generate_study_plan_total)
qed

theorem revision_once_witness:
  "distinct (map subject_name (subjects busy_request)) \<and>
   no_overflow 739190 busy_request \<and>
   generate_study_plan 739190 busy_request =
     Inr \<lparr>days = [\<lparr>day_date = 739194, sessions = busy_day\<rparr>],
          total_study_hours = 5/2,
          subjects_distribution = [(''Bio'', 3/2), (''Math'', 1)],
          insufficient_time = True, total_hours_needed = 11/2,
          available_hours = 3, unallocated_topics = []\<rparr> \<and>
   revs ''Bio'' busy_day = take 3 busy_day \<and> revs ''Math'' busy_day = [] \<and>
   subject_exam_date bio = Some 739196 \<and>
   revision_days_before (preferences busy_request) = 2 \<and>
   map ss_date (take 3 busy_day) = [739194, 739194, 739194]"
proof -
  have h: "distinct (map subject_name (subjects busy_request))"
    by code_simp
  have n: "no_overflow 739190 busy_request"
    by code_simp
  have v: "generate_study_plan 739190 busy_request =
     Inr \<lparr>days = [\<lparr>day_date = 739194, sessions = busy_day\<rparr>],
          total_study_hours = 5/2,
          subjects_distribution = [(''Bio'', 3/2), (''Math'', 1)],
          insufficient_time = True, total_hours_needed = 11/2,
          available_hours = 3, unallocated_topics = []\<rparr>"
    by code_simp
  have l: "revs ''Bio'' busy_day = take 3 busy_day" "revs ''Math'' busy_day = []"
    "subject_exam_date bio = Some 739196"
    "revision_days_before (preferences busy_request) = 2"
    "map ss_date (take 3 busy_day) = [739194, 739194, 739194]"
    by code_simp+
  from revision_once[OF h, of 739190] h n v l show ?thesis by blast
qed

end
